theory Spec2Isabelle
  imports Main "HOL-Library.Word"
begin

section \<open>Go values used by the program\<close>

text \<open>
  Go strings are byte sequences: \<open>string\<close> (a list of 8-bit characters). Go's \<open>int\<close> is the
  64-bit two's complement integer of the platforms the program names (windows, linux,
  darwin on 64-bit hardware): \<open>64 word\<close>, read with \<open>sint\<close>; \<open>+\<close>, \<open>-\<close> and \<open>*\<close> wrap around.
  The value \<open>nil\<close> of type \<open>error\<close> is \<open>None\<close>.
\<close>

type_synonym go_int = "64 word"

datatype num_err = ErrSyntax | ErrRange

datatype go_error =
    NumError string string num_err  \<comment> \<open>\<open>&strconv.NumError{Func, Num, Err}\<close>\<close>
  | Errorf string "go_error option" \<comment> \<open>\<open>fmt.Errorf(prefix + "%v", err)\<close>\<close>
  | IOError string                  \<comment> \<open>an error of the network or of the operating system\<close>
  | EOF                             \<comment> \<open>\<open>io.EOF\<close>\<close>

text \<open>
  What the program needs to know of the machine it runs on: \<open>runtime.GOOS\<close>, and the value
  that the conversion \<open>int(f)\<close> gives for a \<open>float64\<close> outside the range of \<open>int\<close>, which the
  language leaves to the implementation. The only such conversions of the program are of
  \<open>math.Pow(1000, e)\<close>, so the value is indexed by the exponent \<open>e\<close>.
\<close>

record platform =
  GOOS :: string
  conv_overflow :: "nat \<Rightarrow> go_int"

text \<open>On amd64 the conversion instruction yields the smallest \<open>int\<close> on overflow.\<close>

definition linux_amd64 :: platform where
  "linux_amd64 = \<lparr>GOOS = ''linux'', conv_overflow = (\<lambda>e. 0x8000000000000000)\<rparr>"

section \<open>The functions of package strings that the program calls\<close>

text \<open>\<open>strings.HasPrefix\<close>\<close>

definition HasPrefix :: "string \<Rightarrow> string \<Rightarrow> bool" where
  "HasPrefix s pre = (take (length pre) s = pre)"

text \<open>\<open>strings.Contains(s, substr)\<close>: the empty string occurs in every string.\<close>

fun Contains :: "string \<Rightarrow> string \<Rightarrow> bool" where
  "Contains [] substr = (substr = [])"
| "Contains (c # cs) substr = (HasPrefix (c # cs) substr \<or> Contains cs substr)"

text \<open>
  \<open>strings.ReplaceAll(s, old, new)\<close> replaces the occurrences of \<open>old\<close> from left to right,
  each search starting behind the previous occurrence. With \<open>old = new\<close> Go returns \<open>s\<close>
  itself; an empty \<open>old\<close> matches before every character and at the end (the program
  never passes an empty \<open>old\<close> with a non-empty \<open>new\<close>).
\<close>

function replace_from :: "string \<Rightarrow> string \<Rightarrow> string \<Rightarrow> string" where
  "replace_from old new [] = []"
| "replace_from old new (c # cs) =
     (if old \<noteq> [] \<and> HasPrefix (c # cs) old
      then new @ replace_from old new (drop (length old) (c # cs))
      else c # replace_from old new cs)"
  by pat_completeness auto
termination
  by (relation "measure (\<lambda>(old, new, s). length s)") auto

definition ReplaceAll :: "string \<Rightarrow> string \<Rightarrow> string \<Rightarrow> string" where
  "ReplaceAll s old new =
     (if old = new then s
      else if old = [] then new @ concat (map (\<lambda>c. c # new) s)
      else replace_from old new s)"

text \<open>
  \<open>strings.Split(s, sep)\<close> for a non-empty separator: the pieces between the occurrences
  of \<open>sep\<close>, one more piece than there are occurrences, so \<open>Split("", ".")\<close> is \<open>[""]\<close>.
  \<open>cur\<close> is the piece being read. An empty separator splits after each character.
\<close>

function split_from :: "string \<Rightarrow> string \<Rightarrow> string \<Rightarrow> string list" where
  "split_from sep cur [] = [cur]"
| "split_from sep cur (c # cs) =
     (if sep \<noteq> [] \<and> HasPrefix (c # cs) sep
      then cur # split_from sep [] (drop (length sep) (c # cs))
      else split_from sep (cur @ [c]) cs)"
  by pat_completeness auto
termination
  by (relation "measure (\<lambda>(sep, cur, s). length s)") auto

definition Split :: "string \<Rightarrow> string \<Rightarrow> string list" where
  "Split s sep = (if sep = [] then map (\<lambda>c. [c]) s else split_from sep [] s)"

section \<open>strconv.Atoi\<close>

text \<open>
  \<open>strconv.Atoi(s)\<close>: an optional sign, then one or more decimal digits. A character that
  is not a digit gives \<open>ErrSyntax\<close>; a value that leaves the range of the unsigned 64-bit
  accumulator gives \<open>ErrRange\<close> at the digit where it does, and so does a value outside
  the range of \<open>int\<close>.
\<close>

definition is_digit :: "char \<Rightarrow> bool" where
  "is_digit c = (48 \<le> (of_char c :: nat) \<and> (of_char c :: nat) \<le> 57)"

definition digit_val :: "char \<Rightarrow> nat" where
  "digit_val c = of_char c - 48"

fun parse_uint :: "nat \<Rightarrow> string \<Rightarrow> num_err + nat" where
  "parse_uint n [] = Inr n"
| "parse_uint n (c # cs) =
     (if \<not> is_digit c then Inl ErrSyntax
      else if n * 10 + digit_val c > 2 ^ 64 - 1 then Inl ErrRange
      else parse_uint (n * 10 + digit_val c) cs)"

definition Atoi :: "string \<Rightarrow> go_error + go_int" where
  "Atoi s0 =
     (if s0 = [] then Inl (NumError ''Atoi'' s0 ErrSyntax)
      else
        let neg = (hd s0 = CHR ''-'');
            s = (if hd s0 = CHR ''-'' \<or> hd s0 = CHR ''+'' then tl s0 else s0)
        in if s = [] then Inl (NumError ''Atoi'' s0 ErrSyntax)
           else case parse_uint 0 s of
               Inl e \<Rightarrow> Inl (NumError ''Atoi'' s0 e)
             | Inr un \<Rightarrow>
                 if \<not> neg \<and> un \<ge> 2 ^ 63 then Inl (NumError ''Atoi'' s0 ErrRange)
                 else if neg \<and> un > 2 ^ 63 then Inl (NumError ''Atoi'' s0 ErrRange)
                 else Inr (if neg then - word_of_nat un else word_of_nat un))"

section \<open>The Version Comparator: deltaVersion\<close>

text \<open>
  \<open>int(math.Pow(1000, float64(e)))\<close>. The powers of 1000 up to \<open>1000 ^ 6\<close> are exact in
  \<open>float64\<close> and lie in the range of \<open>int\<close>; from \<open>1000 ^ 7\<close> on the float is beyond
  \<open>2 ^ 63\<close> and the conversion is the platform's.
\<close>

definition int_Pow1000 :: "platform \<Rightarrow> nat \<Rightarrow> go_int" where
  "int_Pow1000 rt e =
     (if (1000 :: nat) ^ e < 2 ^ 63 then word_of_nat (1000 ^ e) else conv_overflow rt e)"

text \<open>
  The loop of \<open>digitize\<close>: \<open>k\<close> is \<open>len(versionSplit)\<close>, \<open>n\<close> the index of \<open>digit\<close>, counted
  from 0, and the first component that \<open>Atoi\<close> rejects ends the loop with its error.
\<close>

fun digitize_loop ::
  "platform \<Rightarrow> nat \<Rightarrow> nat \<Rightarrow> string list \<Rightarrow> go_int \<Rightarrow> go_error + go_int" where
  "digitize_loop rt k n [] versionInt = Inr versionInt"
| "digitize_loop rt k n (digit # rest) versionInt =
     (case Atoi digit of
        Inl err \<Rightarrow> Inl err
      | Inr digitInt \<Rightarrow>
          digitize_loop rt k (Suc n) rest (versionInt + digitInt * int_Pow1000 rt (k - n)))"

definition digitize :: "platform \<Rightarrow> string \<Rightarrow> go_error + go_int" where
  "digitize rt Version =
     (let versionSplit = Split (ReplaceAll Version ''v'' '''') ''.''
      in digitize_loop rt (length versionSplit) 0 versionSplit 0)"

definition deltaVersion :: "platform \<Rightarrow> string \<Rightarrow> string \<Rightarrow> go_error + go_int" where
  "deltaVersion rt onlineVersion clientVersion =
     (case digitize rt clientVersion of
        Inl err \<Rightarrow> Inl (Errorf ''compareVersion: '' (Some err))
      | Inr clientVersionInt \<Rightarrow>
          (case digitize rt onlineVersion of
             Inl err \<Rightarrow> Inl (Errorf ''compareVersion: '' (Some err))
           | Inr onlineVersionInt \<Rightarrow> Inr (onlineVersionInt - clientVersionInt)))"

section \<open>Effects\<close>

text \<open>
  The three goroutines act on the world through calls of other packages. A run is the
  list of these calls in the order they are made; what a call returns is an input of the
  model.
\<close>

datatype log_arg = Str string | ErrMsg go_error

text \<open>
  The constants and the error type of package errco, which package input uses; their
  declarations are in errco itself, so they are kept as names.
\<close>

datatype errco_code =
  ERROR_INPUT_UNAVAILABLE | ERROR_INPUT_READ | ERROR_COMMAND_INPUT
  | ERROR_COMMAND_UNKNOWN | ERROR_SERVER_NOT_ONLINE

datatype errco_level = LVL_A | LVL_B | LVL_D

datatype msh_error =
    NewErr errco_code errco_level string log_arg
  | AddTrace msh_error string
  | ServctrlErr string

datatype event =
    LoggerLogln "log_arg list"          \<comment> \<open>\<open>logger.Logln(...)\<close>\<close>
  | ErrcoLogMshErr msh_error            \<comment> \<open>\<open>errco.LogMshErr(err)\<close>\<close>
  | ErrcoLogln errco_level string "string list"
  | FmtPrint string                     \<comment> \<open>console output\<close>
  | FmtPrintln string
  | HttpGet string string               \<comment> \<open>\<open>client.Do\<close> of a GET: the URL and the User-Agent\<close>
  | BodyClose
  | GoNotifyGameChat int int string     \<comment> \<open>\<open>go notifyGameChat(...)\<close>\<close>
  | SendCheckedUpdateC
  | TimeNow int                         \<comment> \<open>\<open>time.Now()\<close> and the time it read\<close>
  | TimeSleep int
  | StartMS
  | StopMS bool
  | WgWait                              \<comment> \<open>\<open>servctrl.ServTerm.Wg.Wait()\<close>\<close>
  | Execute string string
  | OsExit int

text \<open>\<open>time.Duration\<close> counts nanoseconds.\<close>

definition Second :: int where "Second = 1000000000"
definition Minute :: int where "Minute = 60 * Second"
definition Hour :: int where "Hour = 60 * Minute"

section \<open>The Version-Check Protocol: checkUpdate\<close>

definition ERROR :: go_int where "ERROR = 0xffffffff"
definition UPDATED :: go_int where "UPDATED = 0x00000000"
definition UPDATEAVAILABLE :: go_int where "UPDATEAVAILABLE = 0x00000001"
definition UNOFFICIALVERSION :: go_int where "UNOFFICIALVERSION = 0x00000002"

text \<open>
  The network as the function sees it: whether \<open>http.NewRequest\<close> accepts the URL, and
  what \<open>client.Do\<close> followed by \<open>ioutil.ReadAll\<close> of the body give for a URL and a
  User-Agent: the error of \<open>Do\<close>, or the bytes read and the error of \<open>ReadAll\<close>.
\<close>

record network =
  NewRequest :: "string \<Rightarrow> go_error option"
  ClientDo :: "string \<Rightarrow> string \<Rightarrow> go_error + (string \<times> go_error option)"

text \<open>The URL and the User-Agent header that \<open>checkUpdate\<close> builds.\<close>

definition request_url :: "string \<Rightarrow> string \<Rightarrow> string" where
  "request_url clientProtV clientVersion =
     ''http://minecraft-server-hibernation.heliohost.us/latest-version.php?v=''
       @ clientProtV @ ''&version='' @ clientVersion"

definition user_agent :: "platform \<Rightarrow> string \<Rightarrow> string" where
  "user_agent rt clientVersion =
     (let userAgentOs =
            (if GOOS rt = ''windows'' then ''windows''
             else if GOOS rt = ''linux'' then ''linux''
             else if GOOS rt = ''darwin'' then ''macintosh''
             else ''osNotSupported'')
      in ''msh ('' @ userAgentOs @ '') msh/'' @ clientVersion)"

text \<open>The \<open>switch\<close> on \<open>delta\<close> at the end of \<open>checkUpdate\<close>.\<close>

definition classify :: "go_int \<Rightarrow> go_int" where
  "classify delta =
     (if sint delta > 0 then UPDATEAVAILABLE
      else if sint delta < 0 then UNOFFICIALVERSION
      else UPDATED)"

definition checkUpdate ::
  "platform \<Rightarrow> network \<Rightarrow> string \<Rightarrow> string \<Rightarrow> string
     \<Rightarrow> (go_int \<times> string \<times> go_error option) \<times> event list" where
  "checkUpdate rt net clientProtV clientVersion respHeader =
     (let url = request_url clientProtV clientVersion;
          userAgent = user_agent rt clientVersion
      in case NewRequest net url of
           Some err \<Rightarrow> ((ERROR, ''error'', Some (Errorf ''checkUpdate: '' (Some err))), [])
         | None \<Rightarrow>
            (case ClientDo net url userAgent of
               Inl err \<Rightarrow>
                 ((ERROR, ''error'', Some (Errorf ''checkUpdate: '' (Some err))),
                  [HttpGet url userAgent])
             | Inr (respByte, err) \<Rightarrow>
                 if err \<noteq> None \<or> \<not> Contains respByte respHeader
                 then ((ERROR, ''error'', Some (Errorf ''checkUpdate: '' err)),
                       [HttpGet url userAgent, BodyClose])
                 else
                   let onlineVersion = ReplaceAll respByte respHeader ''''
                   in (case deltaVersion rt onlineVersion clientVersion of
                         Inl err \<Rightarrow> (ERROR, ''error'', Some (Errorf ''checkUpdate: '' (Some err)))
                       | Inr delta \<Rightarrow> (classify delta, onlineVersion, None),
                       [HttpGet url userAgent, BodyClose])))"

text \<open>A network that accepts every request and answers it with the body given.\<close>

definition answering :: "string \<Rightarrow> network" where
  "answering body = \<lparr>NewRequest = (\<lambda>url. None), ClientDo = (\<lambda>url userAgent. Inr (body, None))\<rparr>"

text \<open>Networks that refuse the request, and that fail to deliver it.\<close>

definition refusing :: "go_error \<Rightarrow> network" where
  "refusing e = \<lparr>NewRequest = (\<lambda>url. Some e), ClientDo = (\<lambda>url userAgent. Inl e)\<rparr>"

definition unreachable :: "go_error \<Rightarrow> network" where
  "unreachable e = \<lparr>NewRequest = (\<lambda>url. None), ClientDo = (\<lambda>url userAgent. Inl e)\<rparr>"

section \<open>The Notification Broadcaster: notifyGameChat\<close>

text \<open>
  What the \<open>i\<close>-th pass of the loop meets: the flag \<open>servctrl.ServTerm.IsActive\<close>, the
  error of \<open>servctrl.Execute\<close>, and \<open>lag\<close>, the nanoseconds that went by since the
  previous reading of the clock beyond the sleep asked for (the time the calls took, and
  by how much \<open>time.Sleep\<close> overslept; it never sleeps less than asked).
\<close>

record tick =
  IsActive :: bool
  ExecuteErr :: "go_error option"
  lag :: nat

definition say :: "tick \<Rightarrow> string \<Rightarrow> event list" where
  "say tk notificationString =
     (if IsActive tk
      then Execute (''say '' @ notificationString) ''notifyGameChat''
           # (case ExecuteErr tk of
                Some err \<Rightarrow> [LoggerLogln [Str ''notifyGameChat:'', ErrMsg err]]
              | None \<Rightarrow> [])
      else [])"

text \<open>
  The loop \<open>for time.Now().Before(endT)\<close>; \<open>clock\<close> is the time of the previous reading
  plus the sleep. A sleep of zero or less returns at once, so the loop need not end:
  the result is \<open>None\<close> when it does not.
\<close>

partial_function (option) notify_loop ::
  "(nat \<Rightarrow> tick) \<Rightarrow> int \<Rightarrow> int \<Rightarrow> string \<Rightarrow> nat \<Rightarrow> int \<Rightarrow> event list
     \<Rightarrow> event list option" where
  "notify_loop env deltaNotification endT notificationString i clock tr =
     (if clock + int (lag (env i)) < endT
      then notify_loop env deltaNotification endT notificationString (Suc i)
             (clock + int (lag (env i)) + max 0 deltaNotification)
             (tr @ [TimeNow (clock + int (lag (env i)))]
                 @ say (env i) notificationString
                 @ [TimeSleep deltaNotification])
      else Some (tr @ [TimeNow (clock + int (lag (env i)))]))"

text \<open>\<open>T0\<close> is the time that the first \<open>time.Now()\<close> reads.\<close>

definition notifyGameChat ::
  "(nat \<Rightarrow> tick) \<Rightarrow> int \<Rightarrow> int \<Rightarrow> int \<Rightarrow> string \<Rightarrow> event list option" where
  "notifyGameChat env T0 deltaNotification deltaToEnd notificationString =
     notify_loop env deltaNotification (T0 + deltaToEnd) notificationString 0 T0 [TimeNow T0]"

section \<open>The Update Poller: UpdateManager\<close>

text \<open>
  One pass of the loop of \<open>UpdateManager\<close>. \<open>NotifyUpdate\<close> is
  \<open>config.ConfigRuntime.Msh.NotifyUpdate\<close> as the pass reads it.
\<close>

definition notify_events :: "go_int \<Rightarrow> string \<Rightarrow> string \<Rightarrow> event list" where
  "notify_events status clientVersion onlineVersion =
     (if status = UPDATED
      then [FmtPrintln (''*** msh ('' @ clientVersion @ '') is updated ***'')]
      else if status = UPDATEAVAILABLE
      then let notification =
                 ''*** msh ('' @ onlineVersion @ '') is now available: visit github to update! ***''
           in [FmtPrintln notification,
               GoNotifyGameChat (20 * Minute) (4 * Hour) notification]
      else if status = UNOFFICIALVERSION
      then [FmtPrintln (''*** msh ('' @ clientVersion @ '') is running an unofficial release ***'')]
      else [])"

definition UpdateManager_pass :: "platform \<Rightarrow> network \<Rightarrow> bool \<Rightarrow> string \<Rightarrow> event list" where
  "UpdateManager_pass rt net NotifyUpdate clientVersion =
     (case checkUpdate rt net ''1'' clientVersion ''latest version: '' of
        ((status, onlineVersion, err), http_events) \<Rightarrow>
          [LoggerLogln [Str ''checking version...'']]
          @ http_events
          @ (case err of
               Some e \<Rightarrow> [LoggerLogln [Str ''UpdateManager:'', ErrMsg e]]
             | None \<Rightarrow> [])
          @ (if NotifyUpdate then notify_events status clientVersion onlineVersion else [])
          @ [SendCheckedUpdateC, TimeSleep (4 * Hour)])"

text \<open>The loop never ends; its first passes, one for each state of the world given.\<close>

fun UpdateManager :: "platform \<Rightarrow> (network \<times> bool) list \<Rightarrow> string \<Rightarrow> event list" where
  "UpdateManager rt [] clientVersion = []"
| "UpdateManager rt ((net, NotifyUpdate) # world) clientVersion =
     UpdateManager_pass rt net NotifyUpdate clientVersion @ UpdateManager rt world clientVersion"

section \<open>The Shutdown Coordinator: InterruptListener\<close>

text \<open>
  Modelled from the spec: the type of \<open>servctrl.Stats.Status\<close> and its constants are
  declared in package servctrl; the spec gives the status as one of STOPPING, OFFLINE and
  other states.
\<close>

datatype server_status = STATUS_STOPPING | STATUS_OFFLINE | STATUS_OTHER nat

datatype signal = SIGHUP | SIGINT | SIGTERM | SIGQUIT

text \<open>
  What the listener meets once a signal has arrived: the error of \<open>servctrl.StopMS\<close>, the
  status read after the sleep, and whether \<open>Wg.Wait()\<close> returns.
\<close>

record shutdown_env =
  StopMS_err :: "go_error option"
  Status :: server_status
  Wait_returns :: bool

definition on_signal :: "shutdown_env \<Rightarrow> event list" where
  "on_signal env =
     [StopMS False]
     @ (case StopMS_err env of
          Some err \<Rightarrow> [LoggerLogln [Str ''InterruptListener:'', ErrMsg err]]
        | None \<Rightarrow> [])
     @ [TimeSleep Second]
     @ (case Status env of
          STATUS_STOPPING \<Rightarrow>
            [LoggerLogln [Str ''InterruptListener: waiting for minecraft server terminal to exit (server is stopping)''],
             WgWait]
            @ (if Wait_returns env then [FmtPrint ''exiting msh'', OsExit 0] else [])
        | STATUS_OFFLINE \<Rightarrow>
            [LoggerLogln [Str ''InterruptListener: minecraft server terminal already exited (server is offline)''],
             FmtPrint ''exiting msh'', OsExit 0]
        | STATUS_OTHER other \<Rightarrow>
            [LoggerLogln [Str ''InterruptListener: stop command does not seem to be stopping server during forceful shutdown''],
             FmtPrint ''exiting msh'', OsExit 0])"

text \<open>
  The loop \<open>for { <-c; ... os.Exit(0) }\<close> over the signals that arrive: with none the
  listener waits for ever, and the first one ends the process or leaves the listener in
  \<open>Wg.Wait()\<close>, so no later signal is read.
\<close>

fun InterruptListener :: "(signal \<times> shutdown_env) list \<Rightarrow> event list" where
  "InterruptListener [] = []"
| "InterruptListener ((sig, env) # later) = on_signal env"

section \<open>The command line: GetInput\<close>

text \<open>
  The loop \<open>for strings.Contains(line, "  ")\<close> ends because each pass makes the line
  shorter.
\<close>

lemma HasPrefix_length:
  assumes "HasPrefix s old"
  shows "length old \<le> length s"
proof -
  have "length (take (length old) s) = length old"
    using assms unfolding HasPrefix_def by (rule arg_cong)
  then show ?thesis by simp
qed

lemma replace_from_length:
  "length new \<le> length old \<Longrightarrow> length (replace_from old new s) \<le> length s"
proof (induction old new s rule: replace_from.induct)
  case (1 old new)
  then show ?case by simp
next
  case (2 old new c cs)
  show ?case
  proof (cases "old \<noteq> [] \<and> HasPrefix (c # cs) old")
    case True
    then have fits: "length old \<le> length (c # cs)"
      by (blast dest: HasPrefix_length)
    have unfold: "replace_from old new (c # cs)
                    = new @ replace_from old new (drop (length old) (c # cs))"
      using True by simp
    have "length (replace_from old new (drop (length old) (c # cs)))
            \<le> length (c # cs) - length old"
      using 2(1) [OF True 2(3)] by simp
    then show ?thesis
      unfolding unfold using fits 2(3) by simp
  next
    case False
    then have unfold: "replace_from old new (c # cs) = c # replace_from old new cs"
      by auto
    show ?thesis
      unfolding unfold using 2(2) [OF False 2(3)] by simp
  qed
qed

lemma replace_from_shorter:
  "length new < length old \<Longrightarrow> Contains s old
     \<Longrightarrow> length (replace_from old new s) < length s"
proof (induction old new s rule: replace_from.induct)
  case (1 old new)
  then show ?case by simp
next
  case (2 old new c cs)
  from 2(3) have ne: "old \<noteq> []" by auto
  show ?case
  proof (cases "HasPrefix (c # cs) old")
    case True
    then have fits: "length old \<le> length (c # cs)"
      by (blast dest: HasPrefix_length)
    have unfold: "replace_from old new (c # cs)
                    = new @ replace_from old new (drop (length old) (c # cs))"
      using True ne by simp
    have "length (replace_from old new (drop (length old) (c # cs)))
            \<le> length (c # cs) - length old"
      using 2(3) replace_from_length [of new old "drop (length old) (c # cs)"] by simp
    then show ?thesis
      unfolding unfold using fits 2(3) by simp
  next
    case False
    then have unfold: "replace_from old new (c # cs) = c # replace_from old new cs"
      by simp
    have "Contains cs old" using 2(4) False by simp
    with 2(2) 2(3) False have "length (replace_from old new cs) < length cs"
      by blast
    then show ?thesis
      unfolding unfold by simp
  qed
qed

function single_spaces :: "string \<Rightarrow> string" where
  "single_spaces line =
     (if Contains line ''  '' then single_spaces (ReplaceAll line ''  '' '' '') else line)"
  by pat_completeness auto
termination
proof (relation "measure length")
  show "wf (measure length)" by simp
next
  fix line :: string
  assume "Contains line ''  ''"
  then have "length (replace_from ''  '' '' '' line) < length line"
    by (rule replace_from_shorter [rotated]) simp
  then show "(ReplaceAll line ''  '' '' '', line) \<in> measure length"
    by (simp add: ReplaceAll_def)
qed

declare single_spaces.simps [simp del]

text \<open>\<open>strings.Join\<close>\<close>

fun Join :: "string list \<Rightarrow> string \<Rightarrow> string" where
  "Join [] sep = []"
| "Join [x] sep = x"
| "Join (x # y # ys) sep = x @ sep @ Join (y # ys) sep"

text \<open>
  What one pass of the loop of \<open>GetInput\<close> meets: the line and the error of
  \<open>reader.ReadString\<close>, what \<open>servctrl.StartMS\<close>, \<open>servctrl.StopMS\<close> and
  \<open>servctrl.Execute\<close> return, and whether the server status is
  \<open>errco.SERVER_STATUS_ONLINE\<close>.
\<close>

record input_env =
  Read_line :: "string \<times> go_error option"
  StartMS_ret :: "msh_error option"
  StopMS_ret :: "msh_error option"
  Execute_ret :: "msh_error option"
  Server_online :: bool

definition log_trace :: "msh_error option \<Rightarrow> event list" where
  "log_trace errMsh =
     (case errMsh of
        Some e \<Rightarrow> [ErrcoLogMshErr (AddTrace e ''GetInput'')]
      | None \<Rightarrow> [])"

text \<open>The command for target \<open>msh\<close>; the flag says whether the loop goes on.\<close>

definition msh_command :: "input_env \<Rightarrow> string \<Rightarrow> event list \<times> bool" where
  "msh_command env cmd =
     (if cmd = ''start'' then (StartMS # log_trace (StartMS_ret env), True)
      else if cmd = ''freeze'' then (StopMS False # log_trace (StopMS_ret env), True)
      else if cmd = ''exit''
      then (StopMS False # log_trace (StopMS_ret env)
              @ [ErrcoLogln LVL_A ''exiting msh'' [], OsExit 0], False)
      else ([ErrcoLogMshErr (NewErr ERROR_COMMAND_UNKNOWN LVL_A ''GetInput''
               (Str ''unknown command (start - freeze - exit)''))], True))"

definition mine_command :: "input_env \<Rightarrow> string list \<Rightarrow> event list \<times> bool" where
  \<open>mine_command env args =
     (if \<not> Server_online env
      then ([ErrcoLogMshErr (NewErr ERROR_SERVER_NOT_ONLINE LVL_A ''GetInput''
               (Str ''minecraft server is not online (try "msh start")''))], True)
      else (Execute (Join args '' '') ''user input'' # log_trace (Execute_ret env), True))\<close>

text \<open>
  One pass. \<open>Split\<close> returns at least one piece, so \<open>lineSplit[0]\<close> is always there.
\<close>

definition GetInput_pass :: "input_env \<Rightarrow> event list \<times> bool" where
  "GetInput_pass env =
     (case Read_line env of
        (read, Some err) \<Rightarrow>
          if err = EOF
          then ([ErrcoLogMshErr (NewErr ERROR_INPUT_UNAVAILABLE LVL_B ''GetInput''
                   (Str ''stdin unavailable, exiting input goroutine''))], False)
          else ([ErrcoLogMshErr (NewErr ERROR_INPUT_READ LVL_D ''GetInput'' (ErrMsg err))],
                True)
      | (read, None) \<Rightarrow>
          let line = ReplaceAll read [CHR 0x0A] [];
              line = ReplaceAll line [CHR 0x0D] [];
              line = ReplaceAll line [CHR 0x09] '' '';
              line = single_spaces line;
              lineSplit = Split line '' '';
              logged = ErrcoLogln LVL_D ''GetInput: user input: %s'' lineSplit
          in case lineSplit of
               [] \<Rightarrow> ([logged], False)
             | target # args \<Rightarrow>
                 if target = ''msh''
                 then (case args of
                         [] \<Rightarrow>
                           ([logged, ErrcoLogMshErr (NewErr ERROR_COMMAND_INPUT LVL_A
                               ''GetInput'' (Str ''specify msh command (start - freeze - exit)''))],
                            True)
                       | cmd # others \<Rightarrow>
                           (logged # fst (msh_command env cmd), snd (msh_command env cmd)))
                 else if target = ''mine''
                 then (case args of
                         [] \<Rightarrow>
                           ([logged, ErrcoLogMshErr (NewErr ERROR_COMMAND_INPUT LVL_A
                               ''GetInput'' (Str ''specify mine command''))],
                            True)
                       | cmd # others \<Rightarrow>
                           (logged # fst (mine_command env args), snd (mine_command env args)))
                 else ([logged, ErrcoLogMshErr (NewErr ERROR_COMMAND_INPUT LVL_A
                          ''GetInput'' (Str ''specify the target (msh - mine)''))],
                       True))"

text \<open>The loop, over what its passes meet; it stops where a pass returns or exits.\<close>

fun GetInput :: "input_env list \<Rightarrow> event list" where
  "GetInput [] = []"
| "GetInput (env # later) =
     (if snd (GetInput_pass env) then fst (GetInput_pass env) @ GetInput later
      else fst (GetInput_pass env))"

text \<open>The exit statuses with which a run ends the process.\<close>

fun exit_codes :: "event list \<Rightarrow> int list" where
  "exit_codes [] = []"
| "exit_codes (OsExit c # tr) = c # exit_codes tr"
| "exit_codes (e # tr) = exit_codes tr"

text \<open>What the user sees of a run: the console output, and a broadcast to the game chat.\<close>

fun user_visible :: "event \<Rightarrow> bool" where
  "user_visible (FmtPrint s) = True"
| "user_visible (FmtPrintln s) = True"
| "user_visible (GoNotifyGameChat deltaNotification deltaToEnd s) = True"
| "user_visible e = False"

section \<open>The words of the specification\<close>

text \<open>
  The Version format of the specification: the letter v, then one or more components
  separated by dots, each a non-empty run of decimal digits. \<open>seen\<close> says that the
  component being read has a digit already.
\<close>

fun version_tail :: "bool \<Rightarrow> string \<Rightarrow> bool" where
  "version_tail seen [] = seen"
| "version_tail seen (c # cs) =
     (if is_digit c then version_tail True cs
      else if c = CHR ''.'' then seen \<and> version_tail False cs
      else False)"

definition is_version :: "string \<Rightarrow> bool" where
  "is_version s = (case s of [] \<Rightarrow> False | c # cs \<Rightarrow> c = CHR ''v'' \<and> version_tail False cs)"

text \<open>The components of a version as numbers, read from left to right.\<close>

fun components_from :: "nat \<Rightarrow> string \<Rightarrow> nat list" where
  "components_from n [] = [n]"
| "components_from n (c # cs) =
     (if c = CHR ''.'' then n # components_from 0 cs
      else components_from (n * 10 + digit_val c) cs)"

definition version_components :: "string \<Rightarrow> nat list" where
  "version_components s = components_from 0 (tl s)"

text \<open>
  The encoding in the words of the specification: the component at position \<open>n\<close>,
  counted from 1, of \<open>k\<close> components has the place value \<open>1000 ^ (k - n)\<close>.
\<close>

definition spec_encoding :: "nat list \<Rightarrow> nat" where
  "spec_encoding comps =
     (\<Sum>n\<leftarrow>[1..<Suc (length comps)]. comps ! (n - 1) * 1000 ^ (length comps - n))"

text \<open>The encoding with the place values of the code: \<open>1000 ^ (k - n + 1)\<close>.\<close>

definition code_encoding :: "nat list \<Rightarrow> nat" where
  "code_encoding comps =
     (\<Sum>n\<leftarrow>[1..<Suc (length comps)]. comps ! (n - 1) * 1000 ^ (length comps - n + 1))"

text \<open>
  The same sum as the loop of \<open>digitize\<close> builds it: the component with index \<open>n\<close>,
  counted from 0, times \<open>1000 ^ (k - n)\<close>.
\<close>

fun place_sum :: "nat \<Rightarrow> nat \<Rightarrow> nat list \<Rightarrow> nat" where
  "place_sum k n [] = 0"
| "place_sum k n (v # vs) = v * 1000 ^ (k - n) + place_sum k (Suc n) vs"

text \<open>The lexicographic order of component lists; a proper prefix comes first.\<close>

fun lex_less :: "nat list \<Rightarrow> nat list \<Rightarrow> bool" where
  "lex_less [] [] = False"
| "lex_less [] (y # ys) = True"
| "lex_less (x # xs) [] = False"
| "lex_less (x # xs) (y # ys) = (x < y \<or> (x = y \<and> lex_less xs ys))"

text \<open>
  The components that \<open>digitize\<close> hands to \<open>Atoi\<close>, and the strings that \<open>Atoi\<close> accepts:
  an optional sign and a non-empty run of digits, whose value lies in the range of
  \<open>int\<close>.
\<close>

definition pieces :: "string \<Rightarrow> string list" where
  "pieces Version = Split (ReplaceAll Version ''v'' '''') ''.''"

definition numeral_value :: "string \<Rightarrow> nat" where
  "numeral_value ds = foldl (\<lambda>n c. n * 10 + digit_val c) 0 ds"

definition is_numeral :: "string \<Rightarrow> bool" where
  "is_numeral ds = (ds \<noteq> [] \<and> list_all is_digit ds)"

definition is_int_literal :: "string \<Rightarrow> bool" where
  "is_int_literal s =
     (case s of
        [] \<Rightarrow> False
      | c # cs \<Rightarrow>
          if c = CHR ''-'' then is_numeral cs \<and> numeral_value cs \<le> 2 ^ 63
          else if c = CHR ''+'' then is_numeral cs \<and> numeral_value cs < 2 ^ 63
          else is_numeral (c # cs) \<and> numeral_value (c # cs) < 2 ^ 63)"

section \<open>Evaluation\<close>

lemmas strings_eval = HasPrefix_def ReplaceAll_def Split_def

lemmas atoi_eval = Atoi_def is_digit_def digit_val_def

lemmas version_eval = strings_eval atoi_eval int_Pow1000_def digitize_def deltaVersion_def

lemmas spec_eval =
  is_version_def version_components_def is_digit_def digit_val_def spec_encoding_def
  code_encoding_def

section \<open>The comparator removes every v\<close>

lemma replace_from_v: "replace_from ''v'' '''' s = filter (\<lambda>c. c \<noteq> CHR ''v'') s"
  by (induction s) (auto simp: HasPrefix_def)

lemma ReplaceAll_v: "ReplaceAll s ''v'' '''' = filter (\<lambda>c. c \<noteq> CHR ''v'') s"
  by (simp add: ReplaceAll_def replace_from_v)

text \<open>
  Claim C10. \<open>digitize\<close> deletes the character v wherever it stands, so that the encoding
  of a string is that of the string without its v's. Strings that are not of the Version
  format are therefore accepted: \<open>1.0.0\<close> has no leading v, \<open>v1.2v3\<close> has a v inside a
  component, and \<open>deltaVersion("1.0.0", "v1.0.0")\<close> is 0 with no error.
\<close>

theorem digitize_removes_every_v:
  "digitize rt Version = digitize rt (filter (\<lambda>c. c \<noteq> CHR ''v'') Version)
   \<and> \<not> is_version ''1.0.0'' \<and> \<not> is_version ''v1.2v3''
   \<and> digitize rt ''1.0.0'' = Inr 1000000000
   \<and> digitize rt ''v1.2v3'' = Inr 1023000
   \<and> deltaVersion rt ''v1.2v3'' ''v1.0.0'' = Inr (- 998977000)
   \<and> deltaVersion rt ''1.0.0'' ''v1.0.0'' = Inr 0"
proof -
  have "digitize rt Version = digitize rt (filter (\<lambda>c. c \<noteq> CHR ''v'') Version)"
    by (simp add: digitize_def ReplaceAll_v)
  moreover have "\<not> is_version ''1.0.0''" "\<not> is_version ''v1.2v3''"
    by (simp_all add: spec_eval)
  moreover have "digitize rt ''1.0.0'' = Inr 1000000000"
    by (simp add: version_eval)
  moreover have "digitize rt ''v1.2v3'' = Inr 1023000"
    by (simp add: version_eval)
  moreover have "deltaVersion rt ''v1.2v3'' ''v1.0.0'' = Inr (- 998977000)"
    by (simp add: version_eval)
  moreover have "deltaVersion rt ''1.0.0'' ''v1.0.0'' = Inr 0"
    by (simp add: version_eval)
  ultimately show ?thesis by blast
qed

section \<open>What strconv.Atoi accepts\<close>

lemma foldl_value_ge: "n \<le> foldl (\<lambda>n c. n * 10 + digit_val c) n ds"
proof (induction ds arbitrary: n)
  case Nil
  show ?case by simp
next
  case (Cons c cs)
  have "n \<le> n * 10 + digit_val c" by simp
  also have "\<dots> \<le> foldl (\<lambda>n c. n * 10 + digit_val c) (n * 10 + digit_val c) cs"
    by (rule Cons.IH)
  finally show ?case by simp
qed

lemma parse_uint_digits:
  "list_all is_digit ds \<Longrightarrow> n \<le> 2 ^ 64 - 1 \<Longrightarrow>
     parse_uint n ds =
       (if foldl (\<lambda>n c. n * 10 + digit_val c) n ds \<le> 2 ^ 64 - 1
        then Inr (foldl (\<lambda>n c. n * 10 + digit_val c) n ds) else Inl ErrRange)"
proof (induction ds arbitrary: n)
  case Nil
  then show ?case by simp
next
  case (Cons c cs)
  then have d: "is_digit c" and ds: "list_all is_digit cs" by simp_all
  show ?case
  proof (cases "n * 10 + digit_val c > 2 ^ 64 - 1")
    case True
    moreover have "n * 10 + digit_val c
                     \<le> foldl (\<lambda>n c. n * 10 + digit_val c) (n * 10 + digit_val c) cs"
      by (rule foldl_value_ge)
    ultimately show ?thesis using d by simp
  next
    case False
    then have "n * 10 + digit_val c \<le> 2 ^ 64 - 1" by simp
    from Cons.IH [OF ds this] show ?thesis using d False by simp
  qed
qed

lemma parse_uint_not_digits:
  "\<not> list_all is_digit ds \<Longrightarrow> \<exists>e. parse_uint n ds = Inl e"
  by (induction ds arbitrary: n) auto

lemma parse_uint_Inr_iff:
  "parse_uint 0 ds = Inr un \<longleftrightarrow>
     list_all is_digit ds \<and> numeral_value ds \<le> 2 ^ 64 - 1 \<and> un = numeral_value ds"
proof (cases "list_all is_digit ds")
  case True
  then show ?thesis
    using parse_uint_digits [of ds 0] by (auto simp: numeral_value_def)
next
  case False
  then show ?thesis
    using parse_uint_not_digits [of ds 0] by auto
qed

lemma not_digit_sign: "\<not> is_digit (CHR ''-'')" "\<not> is_digit (CHR ''+'')"
  by (simp_all add: is_digit_def)

lemma Atoi_minus:
  "Atoi (CHR ''-'' # cs) =
     (if cs = [] then Inl (NumError ''Atoi'' (CHR ''-'' # cs) ErrSyntax)
      else case parse_uint 0 cs of
          Inl e \<Rightarrow> Inl (NumError ''Atoi'' (CHR ''-'' # cs) e)
        | Inr un \<Rightarrow>
            if un > 2 ^ 63 then Inl (NumError ''Atoi'' (CHR ''-'' # cs) ErrRange)
            else Inr (- word_of_nat un))"
  by (simp add: Atoi_def Let_def split: sum.splits)

lemma Atoi_plus:
  "Atoi (CHR ''+'' # cs) =
     (if cs = [] then Inl (NumError ''Atoi'' (CHR ''+'' # cs) ErrSyntax)
      else case parse_uint 0 cs of
          Inl e \<Rightarrow> Inl (NumError ''Atoi'' (CHR ''+'' # cs) e)
        | Inr un \<Rightarrow>
            if un \<ge> 2 ^ 63 then Inl (NumError ''Atoi'' (CHR ''+'' # cs) ErrRange)
            else Inr (word_of_nat un))"
  by (simp add: Atoi_def Let_def split: sum.splits)

lemma Atoi_unsigned:
  "c \<noteq> CHR ''-'' \<Longrightarrow> c \<noteq> CHR ''+'' \<Longrightarrow>
   Atoi (c # cs) =
     (case parse_uint 0 (c # cs) of
        Inl e \<Rightarrow> Inl (NumError ''Atoi'' (c # cs) e)
      | Inr un \<Rightarrow>
          if un \<ge> 2 ^ 63 then Inl (NumError ''Atoi'' (c # cs) ErrRange)
          else Inr (word_of_nat un))"
  by (simp add: Atoi_def Let_def split: sum.splits del: parse_uint.simps)

lemma Atoi_ok_iff: "(\<exists>w. Atoi s = Inr w) \<longleftrightarrow> is_int_literal s"
proof (cases s)
  case Nil
  then show ?thesis by (simp add: Atoi_def is_int_literal_def)
next
  case (Cons c cs)
  consider (minus) "c = CHR ''-''" | (plus) "c = CHR ''+''"
    | (digits) "c \<noteq> CHR ''-''" "c \<noteq> CHR ''+''"
    by blast
  then show ?thesis
  proof cases
    case minus
    show ?thesis
    proof (cases "parse_uint 0 cs")
      case (Inl e)
      then have "\<not> (list_all is_digit cs \<and> numeral_value cs \<le> 2 ^ 64 - 1)"
        using parse_uint_Inr_iff [of cs "numeral_value cs"] by auto
      then show ?thesis
        unfolding Cons minus Atoi_minus is_int_literal_def is_numeral_def
        using Inl by auto
    next
      case (Inr un)
      then have "list_all is_digit cs" "un = numeral_value cs"
        using parse_uint_Inr_iff [of cs un] by auto
      then show ?thesis
        unfolding Cons minus Atoi_minus is_int_literal_def is_numeral_def
        using Inr by auto
    qed
  next
    case plus
    show ?thesis
    proof (cases "parse_uint 0 cs")
      case (Inl e)
      then have "\<not> (list_all is_digit cs \<and> numeral_value cs \<le> 2 ^ 64 - 1)"
        using parse_uint_Inr_iff [of cs "numeral_value cs"] by auto
      then show ?thesis
        unfolding Cons plus Atoi_plus is_int_literal_def is_numeral_def
        using Inl by auto
    next
      case (Inr un)
      then have "list_all is_digit cs" "un = numeral_value cs"
        using parse_uint_Inr_iff [of cs un] by auto
      then show ?thesis
        unfolding Cons plus Atoi_plus is_int_literal_def is_numeral_def
        using Inr by auto
    qed
  next
    case digits
    have lit: "is_int_literal (c # cs)
                 = (list_all is_digit (c # cs) \<and> numeral_value (c # cs) < 2 ^ 63)"
      using digits by (simp add: is_int_literal_def is_numeral_def)
    show ?thesis
    proof (cases "parse_uint 0 (c # cs)")
      case (Inl e)
      then have "\<not> (list_all is_digit (c # cs) \<and> numeral_value (c # cs) \<le> 2 ^ 64 - 1)"
        using parse_uint_Inr_iff [of "c # cs" "numeral_value (c # cs)"] by auto
      then have "\<not> is_int_literal (c # cs)" unfolding lit by auto
      moreover have "\<not> (\<exists>w. Atoi (c # cs) = Inr w)"
        unfolding Atoi_unsigned [OF digits] Inl by simp
      ultimately show ?thesis unfolding Cons by blast
    next
      case (Inr un)
      then have "list_all is_digit (c # cs)" "un = numeral_value (c # cs)"
        using parse_uint_Inr_iff [of "c # cs" un] by auto
      then have "is_int_literal (c # cs) = (un < 2 ^ 63)" unfolding lit by simp
      moreover have "(\<exists>w. Atoi (c # cs) = Inr w) = (un < 2 ^ 63)"
        unfolding Atoi_unsigned [OF digits] Inr by auto
      ultimately show ?thesis unfolding Cons by blast
    qed
  qed
qed

lemma Atoi_numeral:
  assumes "is_numeral ds" and "numeral_value ds < 2 ^ 63"
  shows "Atoi ds = Inr (word_of_nat (numeral_value ds))"
proof -
  from assms(1) obtain c cs where ds: "ds = c # cs" and d: "is_digit c"
    by (cases ds) (auto simp: is_numeral_def)
  from d have "c \<noteq> CHR ''-''" "c \<noteq> CHR ''+''" using not_digit_sign by auto
  moreover have "parse_uint 0 ds = Inr (numeral_value ds)"
    using assms parse_uint_Inr_iff [of ds "numeral_value ds"] by (simp add: is_numeral_def)
  ultimately show ?thesis using assms(2) ds by (simp add: Atoi_def)
qed

section \<open>The encoding as a sum\<close>

lemma sum_list_upt_Suc_shift:
  "(\<Sum>i\<leftarrow>[0..<Suc m]. f i) = f 0 + (\<Sum>i\<leftarrow>[0..<m]. f (Suc i))"
proof -
  have "[0..<Suc m] = 0 # map Suc [0..<m]"
    by (simp add: upt_conv_Cons map_Suc_upt del: upt_Suc)
  then show ?thesis by (simp add: comp_def del: upt_Suc)
qed

lemma place_sum_sum_list:
  "place_sum k n vs = (\<Sum>i\<leftarrow>[0..<length vs]. vs ! i * 1000 ^ (k - (n + i)))"
proof (induction vs arbitrary: n)
  case Nil
  show ?case by simp
next
  case (Cons v vs)
  have "(\<Sum>i\<leftarrow>[0..<length (v # vs)]. (v # vs) ! i * 1000 ^ (k - (n + i)))
      = (v # vs) ! 0 * 1000 ^ (k - (n + 0))
        + (\<Sum>i\<leftarrow>[0..<length vs]. (v # vs) ! Suc i * 1000 ^ (k - (n + Suc i)))"
    unfolding length_Cons by (rule sum_list_upt_Suc_shift)
  also have "\<dots> = v * 1000 ^ (k - n) + place_sum k (Suc n) vs"
    unfolding Cons.IH [of "Suc n"] by simp
  finally show ?case by simp
qed

lemma code_encoding_place_sum: "code_encoding vs = place_sum (length vs) 0 vs"
proof -
  have "[1..<Suc (length vs)] = map Suc [0..<length vs]"
    by (simp add: map_Suc_upt del: upt_Suc)
  then have "code_encoding vs
      = (\<Sum>i\<leftarrow>[0..<length vs]. vs ! (Suc i - 1) * 1000 ^ (length vs - Suc i + 1))"
    unfolding code_encoding_def by (simp add: comp_def del: upt_Suc)
  also have "\<dots> = (\<Sum>i\<leftarrow>[0..<length vs]. vs ! i * 1000 ^ (length vs - (0 + i)))"
  proof (rule arg_cong [where f = sum_list], rule map_cong)
    fix i assume "i \<in> set [0..<length vs]"
    then have "length vs - Suc i + 1 = length vs - (0 + i)" by simp
    then show "vs ! (Suc i - 1) * 1000 ^ (length vs - Suc i + 1)
                 = vs ! i * 1000 ^ (length vs - (0 + i))"
      by simp
  qed simp
  finally show ?thesis by (simp add: place_sum_sum_list)
qed

lemma place_sum_bound:
  "list_all (\<lambda>c. c < 1000) vs \<Longrightarrow> n + length vs \<le> k
     \<Longrightarrow> place_sum k n vs < 1000 ^ (k - n + 1)"
proof (induction vs arbitrary: n)
  case Nil
  show ?case by simp
next
  case (Cons v vs)
  then have v: "v < 1000" and vs: "list_all (\<lambda>c. c < 1000) vs"
    and len: "Suc n + length vs \<le> k" by simp_all
  define B :: nat where "B = 1000 ^ (k - n)"
  from len have e: "k - Suc n + 1 = k - n" by simp
  have rest: "place_sum k (Suc n) vs < B"
    using Cons.IH [OF vs len] unfolding e B_def .
  have "(v + 1) * B \<le> 1000 * B"
    using v by (intro mult_le_mono1) simp
  then have "v * B + B \<le> 1000 * B" by simp
  with rest have "v * B + place_sum k (Suc n) vs < 1000 * B" by linarith
  then show ?case by (simp add: B_def)
qed

lemma place_sum_mono:
  "length xs = length ys \<Longrightarrow> list_all (\<lambda>c. c < 1000) xs \<Longrightarrow> n + length xs \<le> k
     \<Longrightarrow> lex_less xs ys \<Longrightarrow> place_sum k n xs < place_sum k n ys"
proof (induction xs ys arbitrary: n rule: list_induct2)
  case Nil
  then show ?case by simp
next
  case (Cons x xs y ys)
  then have xs: "list_all (\<lambda>c. c < 1000) xs" and len: "Suc n + length xs \<le> k"
    by simp_all
  from len have e: "k - Suc n + 1 = k - n" by simp
  define B :: nat where "B = 1000 ^ (k - n)"
  have rest: "place_sum k (Suc n) xs < B"
    using place_sum_bound [OF xs len] unfolding e B_def .
  from Cons.prems(3) consider "x < y" | "x = y" "lex_less xs ys" by auto
  then show ?case
  proof cases
    case 1
    then have "(x + 1) * B \<le> y * B"
      by (intro mult_le_mono1) simp
    then have "x * B + B \<le> y * B" by simp
    with rest have "x * B + place_sum k (Suc n) xs < y * B + place_sum k (Suc n) ys"
      by linarith
    then show ?thesis by (simp add: B_def)
  next
    case 2
    then show ?thesis using Cons.IH [OF xs len] by simp
  qed
qed

lemma sint_word_of_nat:
  "n < 2 ^ 63 \<Longrightarrow> sint (word_of_nat n :: 64 word) = int n"
proof -
  assume "n < 2 ^ 63"
  then have "int n < int (2 ^ 63)" by (simp only: of_nat_less_iff)
  then have "int n < 2 ^ 63" by simp
  then have "signed_take_bit 63 (int n) = int n"
    by (intro signed_take_bit_int_eq_self) simp_all
  moreover have "sint (word_of_nat n :: 64 word) = signed_take_bit 63 (int n)"
    using sint_sbintrunc' [where 'a = 64, of "int n"] by simp
  ultimately show ?thesis by simp
qed

section \<open>Strings of the Version format\<close>

lemma not_digit_dot_v: "\<not> is_digit (CHR ''.'')" "\<not> is_digit (CHR ''v'')"
  by (simp_all add: is_digit_def)

lemma version_tail_no_v: "version_tail seen s \<Longrightarrow> CHR ''v'' \<notin> set s"
proof (induction s arbitrary: seen)
  case Nil
  show ?case by simp
next
  case (Cons c cs)
  then show ?case
    using not_digit_dot_v by (cases "is_digit c") (auto split: if_splits)
qed

lemma HasPrefix_dot: "HasPrefix (c # cs) ''.'' \<longleftrightarrow> c = CHR ''.''"
  by (simp add: HasPrefix_def)

lemma version_tail_split:
  "version_tail seen s \<Longrightarrow> list_all is_digit cur \<Longrightarrow> seen = (cur \<noteq> [])
     \<Longrightarrow> list_all is_numeral (split_from ''.'' cur s)"
proof (induction s arbitrary: seen cur)
  case Nil
  then show ?case by (simp add: is_numeral_def)
next
  case (Cons c cs)
  show ?case
  proof (cases "is_digit c")
    case True
    then have "c \<noteq> CHR ''.''" using not_digit_dot_v by auto
    moreover have "list_all is_numeral (split_from ''.'' (cur @ [c]) cs)"
      using Cons.IH [of True "cur @ [c]"] Cons.prems True by simp
    ultimately show ?thesis by (simp add: HasPrefix_dot)
  next
    case False
    with Cons.prems have dot: "c = CHR ''.''" and seen: "seen" and tail: "version_tail False cs"
      by (auto split: if_splits)
    have "list_all is_numeral (split_from ''.'' [] cs)"
      using Cons.IH [of False "[]"] tail by simp
    moreover have "is_numeral cur"
      using seen Cons.prems by (simp add: is_numeral_def)
    ultimately show ?thesis using dot by (simp add: HasPrefix_dot)
  qed
qed

lemma numeral_value_snoc: "numeral_value (cur @ [c]) = numeral_value cur * 10 + digit_val c"
  by (simp add: numeral_value_def)

lemma components_from_split:
  "components_from (numeral_value cur) s = map numeral_value (split_from ''.'' cur s)"
proof (induction s arbitrary: cur)
  case Nil
  show ?case by simp
next
  case (Cons c cs)
  show ?case
  proof (cases "c = CHR ''.''")
    case True
    have "components_from 0 cs = map numeral_value (split_from ''.'' [] cs)"
      using Cons.IH [of "[]"] by (simp add: numeral_value_def)
    then show ?thesis using True by (simp add: HasPrefix_dot)
  next
    case False
    then show ?thesis
      using Cons.IH [of "cur @ [c]"] by (simp add: HasPrefix_dot numeral_value_snoc)
  qed
qed

lemma version_pieces:
  assumes "is_version Version"
  shows "list_all is_numeral (pieces Version)"
    and "version_components Version = map numeral_value (pieces Version)"
proof -
  from assms obtain cs where v: "Version = CHR ''v'' # cs" and tail: "version_tail False cs"
    by (cases Version) (auto simp: is_version_def)
  have "filter (\<lambda>c. c \<noteq> CHR ''v'') cs = cs"
    using version_tail_no_v [OF tail] by (auto simp: filter_id_conv)
  then have p: "pieces Version = split_from ''.'' [] cs"
    by (simp add: pieces_def v ReplaceAll_v Split_def)
  show "list_all is_numeral (pieces Version)"
    unfolding p using version_tail_split [OF tail, of "[]"] by simp
  show "version_components Version = map numeral_value (pieces Version)"
    using components_from_split [of "[]" cs] p
    by (simp add: version_components_def v numeral_value_def)
qed

lemma int_Pow1000_small: "e \<le> 6 \<Longrightarrow> int_Pow1000 rt e = word_of_nat (1000 ^ e)"
proof -
  assume "e \<le> 6"
  then have "(1000 :: nat) ^ e \<le> 1000 ^ 6" by (intro power_increasing) simp_all
  then have "(1000 :: nat) ^ e < 2 ^ 63" by simp
  then show ?thesis by (simp add: int_Pow1000_def)
qed

lemma digitize_loop_numerals:
  "list_all (\<lambda>p. is_numeral p \<and> numeral_value p < 2 ^ 63) ps \<Longrightarrow> k \<le> 6 \<Longrightarrow>
     digitize_loop rt k n ps acc
       = Inr (acc + word_of_nat (place_sum k n (map numeral_value ps)))"
proof (induction ps arbitrary: n acc)
  case Nil
  show ?case by simp
next
  case (Cons p ps)
  then have p: "Atoi p = Inr (word_of_nat (numeral_value p))"
    and ps: "list_all (\<lambda>p. is_numeral p \<and> numeral_value p < 2 ^ 63) ps"
    by (simp_all add: Atoi_numeral)
  have e: "int_Pow1000 rt (k - n) = word_of_nat (1000 ^ (k - n))"
    using Cons.prems(2) by (intro int_Pow1000_small) simp
  show ?case
    using Cons.IH [OF ps Cons.prems(2)] by (simp add: p e algebra_simps)
qed

lemma digitize_loop_ok_iff:
  "(\<exists>w. digitize_loop rt k n ps acc = Inr w) \<longleftrightarrow> list_all is_int_literal ps"
proof (induction ps arbitrary: n acc)
  case Nil
  show ?case by simp
next
  case (Cons p ps)
  show ?case
  proof (cases "Atoi p")
    case (Inl e)
    then have "\<not> is_int_literal p" using Atoi_ok_iff [of p] by simp
    then show ?thesis using Inl by simp
  next
    case (Inr d)
    then have "is_int_literal p" using Atoi_ok_iff [of p] by auto
    then show ?thesis using Inr Cons.IH by simp
  qed
qed

lemma digitize_ok_iff:
  "(\<exists>w. digitize rt Version = Inr w) \<longleftrightarrow> list_all is_int_literal (pieces Version)"
  unfolding digitize_def pieces_def Let_def by (rule digitize_loop_ok_iff)

lemma digitize_version:
  assumes "is_version Version"
    and "length (version_components Version) \<le> 6"
    and "list_all (\<lambda>c. c < 2 ^ 63) (version_components Version)"
  shows "digitize rt Version = Inr (word_of_nat (code_encoding (version_components Version)))"
proof -
  note vp = version_pieces [OF assms(1)]
  have len: "length (pieces Version) = length (version_components Version)"
    unfolding vp(2) by simp
  have "list_all (\<lambda>p. is_numeral p \<and> numeral_value p < 2 ^ 63) (pieces Version)"
    using vp(1) assms(3) unfolding vp(2) by (simp add: list_all_iff)
  then have "digitize_loop rt (length (pieces Version)) 0 (pieces Version) 0
      = Inr (0 + word_of_nat (place_sum (length (pieces Version)) 0
                                (map numeral_value (pieces Version))))"
    using assms(2) len by (intro digitize_loop_numerals) simp_all
  then show ?thesis
    unfolding digitize_def Let_def pieces_def [symmetric]
    by (simp add: code_encoding_place_sum vp(2))
qed

section \<open>The place values of the encoding\<close>

text \<open>
  Claim C2, as the code has it. For a string of the Version format with \<open>k\<close> components,
  \<open>k\<close> at most 6 and every component below \<open>2 ^ 63\<close>, \<open>digitize\<close> gives the component at
  position \<open>n\<close>, counted from 1, the place value \<open>1000 ^ (k - n + 1)\<close>, so that the last
  component has the place value 1000, and returns the sum of the components times their
  place values, in the arithmetic of \<open>int\<close>; where the sum is below \<open>2 ^ 63\<close> the \<open>int\<close>
  returned is the sum itself.
\<close>

theorem digitize_place_values:
  assumes "is_version Version"
    and "length (version_components Version) \<le> 6"
    and "list_all (\<lambda>c. c < 2 ^ 63) (version_components Version)"
  shows "digitize rt Version = Inr (word_of_nat (code_encoding (version_components Version)))
     \<and> (code_encoding (version_components Version) < 2 ^ 63 \<longrightarrow>
          (\<exists>w. digitize rt Version = Inr w
             \<and> sint w = int (code_encoding (version_components Version))))"
  using digitize_version [OF assms] by (simp add: sint_word_of_nat)

text \<open>The version \<open>v1.2.3\<close> is encoded as 1002003000.\<close>

theorem digitize_place_values_witness:
  "is_version ''v1.2.3''
   \<and> version_components ''v1.2.3'' = [1, 2, 3]
   \<and> list_all (\<lambda>c. c < 2 ^ 63) (version_components ''v1.2.3'')
   \<and> code_encoding (version_components ''v1.2.3'') = 1 * 1000 ^ 3 + 2 * 1000 ^ 2 + 3 * 1000 ^ 1
   \<and> digitize linux_amd64 ''v1.2.3''
        = Inr (word_of_nat (code_encoding (version_components ''v1.2.3'')))
   \<and> (\<exists>w. digitize linux_amd64 ''v1.2.3'' = Inr w \<and> sint w = 1002003000)"
proof -
  have v: "is_version ''v1.2.3''" by (simp add: spec_eval)
  have c: "version_components ''v1.2.3'' = [1, 2, 3]" by (simp add: spec_eval)
  have len: "length (version_components ''v1.2.3'') \<le> 6" by (simp add: c)
  have r: "list_all (\<lambda>c. c < 2 ^ 63) (version_components ''v1.2.3'')" by (simp add: c)
  have e: "code_encoding (version_components ''v1.2.3'') = 1002003000"
    by (simp add: c code_encoding_def upt_rec)
  from digitize_place_values [OF v len r, of linux_amd64] v c r e
  show ?thesis by simp
qed

text \<open>
  With the place values \<open>1000 ^ (k - n)\<close> the version \<open>v1.2.3\<close> would be 1002003. A component
  of \<open>2 ^ 63\<close> has no encoding, and with seven components the first place value is
  the platform's conversion of a float beyond the range of \<open>int\<close>.
\<close>

theorem digitize_place_values_counterexample:
  "is_version ''v1.2.3''
   \<and> spec_encoding (version_components ''v1.2.3'') = 1002003
   \<and> digitize linux_amd64 ''v1.2.3'' = Inr 1002003000
   \<and> digitize linux_amd64 ''v1.2.3''
        \<noteq> Inr (word_of_nat (spec_encoding (version_components ''v1.2.3'')))
   \<and> is_version ''v9223372036854775808''
   \<and> digitize linux_amd64 ''v9223372036854775808''
        = Inl (NumError ''Atoi'' ''9223372036854775808'' ErrRange)
   \<and> is_version ''v1.0.0.0.0.0.0''
   \<and> digitize linux_amd64 ''v1.0.0.0.0.0.0'' = Inr 0x8000000000000000
   \<and> code_encoding (version_components ''v1.0.0.0.0.0.0'') = 1000 ^ 7
   \<and> (word_of_nat (1000 ^ 7) :: go_int) \<noteq> 0x8000000000000000"
proof -
  have "is_version ''v1.2.3''" by (simp add: spec_eval)
  moreover have s: "spec_encoding (version_components ''v1.2.3'') = 1002003"
    by (simp add: spec_eval upt_rec)
  moreover have d: "digitize linux_amd64 ''v1.2.3'' = Inr 1002003000"
    by (simp add: version_eval)
  moreover have "digitize linux_amd64 ''v1.2.3''
        \<noteq> Inr (word_of_nat (spec_encoding (version_components ''v1.2.3'')))"
    unfolding s d by simp
  moreover have "is_version ''v9223372036854775808''" by (simp add: spec_eval)
  moreover have "digitize linux_amd64 ''v9223372036854775808''
        = Inl (NumError ''Atoi'' ''9223372036854775808'' ErrRange)"
    by (simp add: version_eval)
  moreover have "is_version ''v1.0.0.0.0.0.0''" by (simp add: spec_eval)
  moreover have "digitize linux_amd64 ''v1.0.0.0.0.0.0'' = Inr 0x8000000000000000"
    by (simp add: version_eval linux_amd64_def)
  moreover have "code_encoding (version_components ''v1.0.0.0.0.0.0'') = 1000 ^ 7"
    by (simp add: spec_eval upt_rec)
  moreover have "(word_of_nat (1000 ^ 7) :: go_int) \<noteq> 0x8000000000000000"
    by simp
  ultimately show ?thesis by blast
qed

section \<open>The order of the encodings\<close>

lemma code_encoding_small:
  assumes "length vs \<le> 5" and "list_all (\<lambda>c. c < 1000) vs"
  shows "code_encoding vs < 1000 ^ 6"
proof -
  have "place_sum (length vs) 0 vs < 1000 ^ (length vs - 0 + 1)"
    using assms(2) by (intro place_sum_bound) simp_all
  also have "\<dots> \<le> (1000 :: nat) ^ 6"
    using assms(1) by (intro power_increasing) simp_all
  finally show ?thesis by (simp add: code_encoding_place_sum)
qed

lemma sint_diff_small:
  fixes a b :: nat
  assumes "a < 1000 ^ 6" and "b < 1000 ^ 6"
  shows "sint ((word_of_nat a :: 64 word) - word_of_nat b) = int a - int b"
proof -
  have "int a < int (1000 ^ 6)" and "int b < int (1000 ^ 6)"
    using assms by (simp_all only: of_nat_less_iff)
  then have a: "int a < 1000 ^ 6" and b: "int b < 1000 ^ 6"
    by simp_all
  have "(word_of_nat a :: 64 word) - word_of_nat b = word_of_int (int a - int b)"
    by simp
  then have "sint ((word_of_nat a :: 64 word) - word_of_nat b)
      = signed_take_bit 63 (int a - int b)"
    using sint_sbintrunc' [where 'a = 64, of "int a - int b"] by simp
  also have "\<dots> = int a - int b"
    using a b by (intro signed_take_bit_int_eq_self) simp_all
  finally show ?thesis .
qed

text \<open>
  Claim C3, as the code has it. For two strings of the Version format with the same
  number of components, at most 5, and all components below 1000, the encoding is
  strictly monotonic in the lexicographic order of the components: the smaller version
  has the smaller encoding, and \<open>deltaVersion\<close> of the greater and the smaller is
  positive, of the smaller and the greater negative. \<open>deltaVersion("v1.0.0", "v1.0.0")\<close>
  is 0, \<open>deltaVersion("v2.0.0", "v1.0.0")\<close> is positive and
  \<open>deltaVersion("v1.0.0", "v2.0.0")\<close> is negative.
\<close>

theorem encoding_monotonic:
  "(is_version a \<and> is_version b
      \<and> length (version_components a) = length (version_components b)
      \<and> length (version_components a) \<le> 5
      \<and> list_all (\<lambda>c. c < 1000) (version_components a)
      \<and> list_all (\<lambda>c. c < 1000) (version_components b)
      \<and> lex_less (version_components a) (version_components b) \<longrightarrow>
    (\<exists>x y. digitize rt a = Inr x \<and> digitize rt b = Inr y \<and> sint x < sint y)
    \<and> (\<exists>d. deltaVersion rt b a = Inr d \<and> 0 < sint d)
    \<and> (\<exists>d. deltaVersion rt a b = Inr d \<and> sint d < 0))
   \<and> deltaVersion rt ''v1.0.0'' ''v1.0.0'' = Inr 0
   \<and> (\<exists>d. deltaVersion rt ''v2.0.0'' ''v1.0.0'' = Inr d \<and> 0 < sint d)
   \<and> (\<exists>d. deltaVersion rt ''v1.0.0'' ''v2.0.0'' = Inr d \<and> sint d < 0)"
proof (intro conjI impI)
  assume assms: "is_version a \<and> is_version b
      \<and> length (version_components a) = length (version_components b)
      \<and> length (version_components a) \<le> 5
      \<and> list_all (\<lambda>c. c < 1000) (version_components a)
      \<and> list_all (\<lambda>c. c < 1000) (version_components b)
      \<and> lex_less (version_components a) (version_components b)"
  then have va: "is_version a" and vb: "is_version b"
    and len: "length (version_components a) = length (version_components b)"
    and five: "length (version_components a) \<le> 5"
    and ta: "list_all (\<lambda>c. c < 1000) (version_components a)"
    and tb: "list_all (\<lambda>c. c < 1000) (version_components b)"
    and lex: "lex_less (version_components a) (version_components b)"
    by simp_all
  let ?ea = "code_encoding (version_components a)"
  let ?eb = "code_encoding (version_components b)"
  have la: "list_all (\<lambda>c. c < 2 ^ 63) (version_components a)"
    using ta by (auto simp: list_all_iff)
  have lb: "list_all (\<lambda>c. c < 2 ^ 63) (version_components b)"
    using tb by (auto simp: list_all_iff)
  have da: "digitize rt a = Inr (word_of_nat ?ea)"
    using va five la by (intro digitize_version) simp_all
  have db: "digitize rt b = Inr (word_of_nat ?eb)"
    using vb len five lb by (intro digitize_version) simp_all
  have sa: "?ea < 1000 ^ 6"
    using five ta by (rule code_encoding_small)
  have sb: "?eb < 1000 ^ 6"
    using len five tb by (intro code_encoding_small) simp_all
  have lt: "?ea < ?eb"
    unfolding code_encoding_place_sum len [symmetric]
    using len ta lex by (intro place_sum_mono) simp_all
  have "sint (word_of_nat ?ea :: 64 word) = int ?ea"
    using sa by (intro sint_word_of_nat) simp
  moreover have "sint (word_of_nat ?eb :: 64 word) = int ?eb"
    using sb by (intro sint_word_of_nat) simp
  ultimately show "\<exists>x y. digitize rt a = Inr x \<and> digitize rt b = Inr y \<and> sint x < sint y"
    using da db lt by simp
  show "\<exists>d. deltaVersion rt b a = Inr d \<and> 0 < sint d"
    using lt by (simp add: deltaVersion_def da db sint_diff_small [OF sb sa])
  show "\<exists>d. deltaVersion rt a b = Inr d \<and> sint d < 0"
    using lt by (simp add: deltaVersion_def da db sint_diff_small [OF sa sb])
next
  show "deltaVersion rt ''v1.0.0'' ''v1.0.0'' = Inr 0"
    by (simp add: version_eval)
next
  show "\<exists>d. deltaVersion rt ''v2.0.0'' ''v1.0.0'' = Inr d \<and> 0 < sint d"
    by (simp add: version_eval)
next
  show "\<exists>d. deltaVersion rt ''v1.0.0'' ''v2.0.0'' = Inr d \<and> sint d < 0"
    by (simp add: version_eval)
qed

text \<open>The versions \<open>v1.2.4\<close> and \<open>v1.3.0\<close>.\<close>

theorem encoding_monotonic_witness:
  "is_version ''v1.2.4'' \<and> is_version ''v1.3.0''
   \<and> version_components ''v1.2.4'' = [1, 2, 4]
   \<and> version_components ''v1.3.0'' = [1, 3, 0]
   \<and> lex_less (version_components ''v1.2.4'') (version_components ''v1.3.0'')
   \<and> (\<exists>x y. digitize linux_amd64 ''v1.2.4'' = Inr x \<and> digitize linux_amd64 ''v1.3.0'' = Inr y
          \<and> sint x < sint y)
   \<and> (\<exists>d. deltaVersion linux_amd64 ''v1.3.0'' ''v1.2.4'' = Inr d \<and> 0 < sint d)
   \<and> (\<exists>d. deltaVersion linux_amd64 ''v1.2.4'' ''v1.3.0'' = Inr d \<and> sint d < 0)"
proof -
  have va: "is_version ''v1.2.4''" and vb: "is_version ''v1.3.0''"
    by (simp_all add: spec_eval)
  have ca: "version_components ''v1.2.4'' = [1, 2, 4]"
    and cb: "version_components ''v1.3.0'' = [1, 3, 0]"
    by (simp_all add: spec_eval)
  have len: "length (version_components ''v1.2.4'') = length (version_components ''v1.3.0'')"
    and five: "length (version_components ''v1.2.4'') \<le> 5"
    and sa: "list_all (\<lambda>c. c < 1000) (version_components ''v1.2.4'')"
    and sb: "list_all (\<lambda>c. c < 1000) (version_components ''v1.3.0'')"
    and lex: "lex_less (version_components ''v1.2.4'') (version_components ''v1.3.0'')"
    by (simp_all add: ca cb)
  from encoding_monotonic [of "''v1.2.4''" "''v1.3.0''" linux_amd64]
    va vb len five sa sb lex ca cb
  show ?thesis by blast
qed

text \<open>
  Across different numbers of components the order is lost: \<open>v1.0\<close> comes before \<open>v2\<close>
  and is encoded as 1000000, \<open>v2\<close> as 2000. With six components the encoding
  overflows: \<open>v10.0.0.0.0.0\<close> is encoded as a negative \<open>int\<close>.
\<close>

theorem encoding_monotonic_counterexample:
  "is_version ''v1.0'' \<and> is_version ''v2''
   \<and> list_all (\<lambda>c. c < 1000) (version_components ''v1.0'')
   \<and> list_all (\<lambda>c. c < 1000) (version_components ''v2'')
   \<and> lex_less (version_components ''v1.0'') (version_components ''v2'')
   \<and> digitize linux_amd64 ''v1.0'' = Inr 1000000
   \<and> digitize linux_amd64 ''v2'' = Inr 2000
   \<and> \<not> sint (1000000 :: go_int) < sint (2000 :: go_int)
   \<and> deltaVersion linux_amd64 ''v2'' ''v1.0'' = Inr (- 998000)
   \<and> is_version ''v9.0.0.0.0.0'' \<and> is_version ''v10.0.0.0.0.0''
   \<and> list_all (\<lambda>c. c < 1000) (version_components ''v9.0.0.0.0.0'')
   \<and> list_all (\<lambda>c. c < 1000) (version_components ''v10.0.0.0.0.0'')
   \<and> lex_less (version_components ''v9.0.0.0.0.0'') (version_components ''v10.0.0.0.0.0'')
   \<and> digitize linux_amd64 ''v9.0.0.0.0.0'' = Inr 9000000000000000000
   \<and> digitize linux_amd64 ''v10.0.0.0.0.0'' = Inr 10000000000000000000
   \<and> sint (10000000000000000000 :: go_int) < 0
   \<and> 0 < sint (9000000000000000000 :: go_int)"
proof -
  have "is_version ''v1.0''" "is_version ''v2''"
    "is_version ''v9.0.0.0.0.0''" "is_version ''v10.0.0.0.0.0''"
    by (simp_all add: spec_eval)
  moreover have "list_all (\<lambda>c. c < 1000) (version_components ''v1.0'')"
    "list_all (\<lambda>c. c < 1000) (version_components ''v2'')"
    "lex_less (version_components ''v1.0'') (version_components ''v2'')"
    by (simp_all add: spec_eval)
  moreover have "list_all (\<lambda>c. c < 1000) (version_components ''v9.0.0.0.0.0'')"
    "list_all (\<lambda>c. c < 1000) (version_components ''v10.0.0.0.0.0'')"
    "lex_less (version_components ''v9.0.0.0.0.0'') (version_components ''v10.0.0.0.0.0'')"
    by (simp_all add: spec_eval)
  moreover have "digitize linux_amd64 ''v1.0'' = Inr 1000000"
    "digitize linux_amd64 ''v2'' = Inr 2000"
    "deltaVersion linux_amd64 ''v2'' ''v1.0'' = Inr (- 998000)"
    by (simp_all add: version_eval)
  moreover have "digitize linux_amd64 ''v9.0.0.0.0.0'' = Inr 9000000000000000000"
    "digitize linux_amd64 ''v10.0.0.0.0.0'' = Inr 10000000000000000000"
    by (simp_all add: version_eval)
  moreover have "\<not> sint (1000000 :: go_int) < sint (2000 :: go_int)"
    "sint (10000000000000000000 :: go_int) < 0"
    "0 < sint (9000000000000000000 :: go_int)"
    by simp_all
  ultimately show ?thesis by blast
qed

section \<open>The header of the response\<close>

lemma replace_from_absent: "\<not> Contains s old \<Longrightarrow> replace_from old new s = s"
  by (induction s) auto

lemma replace_from_prefix:
  assumes "old \<noteq> []"
  shows "replace_from old new (old @ rest) = new @ replace_from old new rest"
proof -
  from assms obtain c cs where old: "old = c # cs" by (cases old) auto
  have "HasPrefix (c # cs @ rest) (c # cs)" by (simp add: HasPrefix_def)
  then have "replace_from (c # cs) new (c # cs @ rest)
      = new @ replace_from (c # cs) new (drop (length (c # cs)) (c # cs @ rest))"
    by simp
  then show ?thesis by (simp add: old)
qed

lemma ReplaceAll_strips_prefix:
  assumes "respHeader \<noteq> []" and "\<not> Contains rest respHeader"
  shows "ReplaceAll (respHeader @ rest) respHeader '''' = rest"
  using assms by (simp add: ReplaceAll_def replace_from_prefix replace_from_absent)

lemmas check_eval = checkUpdate_def request_url_def user_agent_def answering_def refusing_def
  unreachable_def linux_amd64_def classify_def ERROR_def UPDATED_def UPDATEAVAILABLE_def
  UNOFFICIALVERSION_def

lemma checkUpdate_answered:
  assumes "NewRequest net (request_url clientProtV clientVersion) = None"
    and "ClientDo net (request_url clientProtV clientVersion) (user_agent rt clientVersion)
           = Inr (body, None)"
    and "Contains body respHeader"
  shows "fst (checkUpdate rt net clientProtV clientVersion respHeader)
     = (case deltaVersion rt (ReplaceAll body respHeader '''') clientVersion of
          Inl err \<Rightarrow> (ERROR, ''error'', Some (Errorf ''checkUpdate: '' (Some err)))
        | Inr delta \<Rightarrow> (classify delta, ReplaceAll body respHeader '''', None))"
  using assms by (simp add: checkUpdate_def Let_def split: sum.splits)

text \<open>
  Claim C1, as the code has it. When the request is refused or not delivered, when the
  body cannot be read, or when the body does not contain the header anywhere,
  \<open>checkUpdate\<close> returns \<open>ERROR\<close>, the version \<open>error\<close> and a wrapped error that is not
  nil. Otherwise the online version is the body with every occurrence of the header
  deleted, which is the body without its prefix when the body begins with the header and
  does not contain it again; this version is compared and, with no error, returned.
\<close>

theorem checkUpdate_header:
  "(NewRequest net (request_url clientProtV clientVersion) = Some e \<longrightarrow>
      fst (checkUpdate rt net clientProtV clientVersion respHeader)
        = (ERROR, ''error'', Some (Errorf ''checkUpdate: '' (Some e))))
   \<and> (NewRequest net (request_url clientProtV clientVersion) = None
        \<and> ClientDo net (request_url clientProtV clientVersion) (user_agent rt clientVersion)
             = Inl e \<longrightarrow>
      fst (checkUpdate rt net clientProtV clientVersion respHeader)
        = (ERROR, ''error'', Some (Errorf ''checkUpdate: '' (Some e))))
   \<and> (NewRequest net (request_url clientProtV clientVersion) = None
        \<and> ClientDo net (request_url clientProtV clientVersion) (user_agent rt clientVersion)
             = Inr (body, err)
        \<and> (err \<noteq> None \<or> \<not> Contains body respHeader) \<longrightarrow>
      fst (checkUpdate rt net clientProtV clientVersion respHeader)
        = (ERROR, ''error'', Some (Errorf ''checkUpdate: '' err)))
   \<and> (NewRequest net (request_url clientProtV clientVersion) = None
        \<and> ClientDo net (request_url clientProtV clientVersion) (user_agent rt clientVersion)
             = Inr (body, None)
        \<and> Contains body respHeader \<longrightarrow>
      fst (checkUpdate rt net clientProtV clientVersion respHeader)
        = (case deltaVersion rt (ReplaceAll body respHeader '''') clientVersion of
             Inl err \<Rightarrow> (ERROR, ''error'', Some (Errorf ''checkUpdate: '' (Some err)))
           | Inr delta \<Rightarrow> (classify delta, ReplaceAll body respHeader '''', None)))
   \<and> (respHeader \<noteq> [] \<and> \<not> Contains rest respHeader \<longrightarrow>
        ReplaceAll (respHeader @ rest) respHeader '''' = rest)"
proof (intro conjI impI)
  assume "NewRequest net (request_url clientProtV clientVersion) = Some e"
  then show "fst (checkUpdate rt net clientProtV clientVersion respHeader)
        = (ERROR, ''error'', Some (Errorf ''checkUpdate: '' (Some e)))"
    by (simp add: checkUpdate_def)
next
  assume "NewRequest net (request_url clientProtV clientVersion) = None
        \<and> ClientDo net (request_url clientProtV clientVersion) (user_agent rt clientVersion)
             = Inl e"
  then show "fst (checkUpdate rt net clientProtV clientVersion respHeader)
        = (ERROR, ''error'', Some (Errorf ''checkUpdate: '' (Some e)))"
    by (simp add: checkUpdate_def)
next
  assume "NewRequest net (request_url clientProtV clientVersion) = None
        \<and> ClientDo net (request_url clientProtV clientVersion) (user_agent rt clientVersion)
             = Inr (body, err)
        \<and> (err \<noteq> None \<or> \<not> Contains body respHeader)"
  then show "fst (checkUpdate rt net clientProtV clientVersion respHeader)
        = (ERROR, ''error'', Some (Errorf ''checkUpdate: '' err))"
    by (auto simp: checkUpdate_def)
next
  assume "NewRequest net (request_url clientProtV clientVersion) = None
        \<and> ClientDo net (request_url clientProtV clientVersion) (user_agent rt clientVersion)
             = Inr (body, None)
        \<and> Contains body respHeader"
  then show "fst (checkUpdate rt net clientProtV clientVersion respHeader)
        = (case deltaVersion rt (ReplaceAll body respHeader '''') clientVersion of
             Inl err \<Rightarrow> (ERROR, ''error'', Some (Errorf ''checkUpdate: '' (Some err)))
           | Inr delta \<Rightarrow> (classify delta, ReplaceAll body respHeader '''', None))"
    by (simp add: checkUpdate_answered)
next
  assume "respHeader \<noteq> [] \<and> \<not> Contains rest respHeader"
  then show "ReplaceAll (respHeader @ rest) respHeader '''' = rest"
    by (simp add: ReplaceAll_strips_prefix)
qed

text \<open>One network for each case.\<close>

theorem checkUpdate_header_witness:
  "fst (checkUpdate linux_amd64 (refusing (IOError ''invalid URL'')) ''1'' ''v1.0.0''
          ''latest version: '')
     = (ERROR, ''error'', Some (Errorf ''checkUpdate: '' (Some (IOError ''invalid URL''))))
   \<and> fst (checkUpdate linux_amd64 (unreachable (IOError ''timeout'')) ''1'' ''v1.0.0''
          ''latest version: '')
     = (ERROR, ''error'', Some (Errorf ''checkUpdate: '' (Some (IOError ''timeout''))))
   \<and> fst (checkUpdate linux_amd64 (answering ''404 not found'') ''1'' ''v1.0.0''
          ''latest version: '')
     = (ERROR, ''error'', Some (Errorf ''checkUpdate: '' None))
   \<and> fst (checkUpdate linux_amd64 (answering ''latest version: v9.9.9'') ''1'' ''v1.0.0''
          ''latest version: '')
     = (UPDATEAVAILABLE, ''v9.9.9'', None)
   \<and> ReplaceAll (''latest version: '' @ ''v9.9.9'') ''latest version: '' '''' = ''v9.9.9''"
proof -
  have 1: "fst (checkUpdate linux_amd64 (refusing (IOError ''invalid URL'')) ''1'' ''v1.0.0''
          ''latest version: '')
     = (ERROR, ''error'', Some (Errorf ''checkUpdate: '' (Some (IOError ''invalid URL''))))"
    using checkUpdate_header [where net = "refusing (IOError ''invalid URL'')"
        and e = "IOError ''invalid URL''" and rt = linux_amd64 and clientProtV = "''1''"
        and clientVersion = "''v1.0.0''" and respHeader = "''latest version: ''"]
    by (simp add: refusing_def)
  have 2: "fst (checkUpdate linux_amd64 (unreachable (IOError ''timeout'')) ''1'' ''v1.0.0''
          ''latest version: '')
     = (ERROR, ''error'', Some (Errorf ''checkUpdate: '' (Some (IOError ''timeout''))))"
    using checkUpdate_header [where net = "unreachable (IOError ''timeout'')"
        and e = "IOError ''timeout''" and rt = linux_amd64 and clientProtV = "''1''"
        and clientVersion = "''v1.0.0''" and respHeader = "''latest version: ''"]
    by (simp add: unreachable_def)
  have 3: "fst (checkUpdate linux_amd64 (answering ''404 not found'') ''1'' ''v1.0.0''
          ''latest version: '')
     = (ERROR, ''error'', Some (Errorf ''checkUpdate: '' None))"
    using checkUpdate_header [where net = "answering ''404 not found''"
        and body = "''404 not found''" and err = None
        and rt = linux_amd64 and clientProtV = "''1''"
        and clientVersion = "''v1.0.0''" and respHeader = "''latest version: ''"]
    by (simp add: answering_def HasPrefix_def)
  have 4: "fst (checkUpdate linux_amd64 (answering ''latest version: v9.9.9'') ''1'' ''v1.0.0''
          ''latest version: '')
     = (UPDATEAVAILABLE, ''v9.9.9'', None)"
    using checkUpdate_header [where net = "answering ''latest version: v9.9.9''"
        and body = "''latest version: v9.9.9''"
        and rt = linux_amd64 and clientProtV = "''1''"
        and clientVersion = "''v1.0.0''" and respHeader = "''latest version: ''"]
    by (simp add: answering_def version_eval classify_def)
  have 5: "ReplaceAll (''latest version: '' @ ''v9.9.9'') ''latest version: '' '''' = ''v9.9.9''"
    using checkUpdate_header [where respHeader = "''latest version: ''" and rest = "''v9.9.9''"]
    by (simp add: HasPrefix_def)
  from 1 2 3 4 5 show ?thesis by blast
qed

text \<open>
  A body that does not begin with the header and is accepted, and a body that begins
  with the header, whose online version is not the rest of the body.
\<close>

theorem checkUpdate_header_counterexample:
  "\<not> HasPrefix ''v2.0.0latest version: '' ''latest version: ''
   \<and> fst (checkUpdate linux_amd64 (answering ''v2.0.0latest version: '') ''1'' ''v1.0.0''
          ''latest version: '')
     = (UPDATEAVAILABLE, ''v2.0.0'', None)
   \<and> HasPrefix ''latest version: v2.0.0latest version: '' ''latest version: ''
   \<and> drop (length ''latest version: '') ''latest version: v2.0.0latest version: ''
        = ''v2.0.0latest version: ''
   \<and> fst (checkUpdate linux_amd64 (answering ''latest version: v2.0.0latest version: '')
          ''1'' ''v1.0.0'' ''latest version: '')
     = (UPDATEAVAILABLE, ''v2.0.0'', None)"
  by (simp add: check_eval version_eval)

section \<open>Errors and classification\<close>

lemma deltaVersion_error_cases:
  "(\<exists>err. deltaVersion rt onlineVersion clientVersion = Inl err)
     \<longleftrightarrow> \<not> ((\<exists>w. digitize rt onlineVersion = Inr w) \<and> (\<exists>w. digitize rt clientVersion = Inr w))"
  by (cases "digitize rt clientVersion"; cases "digitize rt onlineVersion")
    (simp_all add: deltaVersion_def)

text \<open>
  Claim C4, as the code has it. \<open>deltaVersion\<close> returns an error exactly when, with every
  v deleted, some dot-separated component of one of the two strings is not accepted by
  \<open>strconv.Atoi\<close>, that is, is not a run of decimal digits with an optional sign before
  it and a value in the range of \<open>int\<close>; it returns an error for \<open>v1.x.0\<close> and for \<open>vA.B\<close>;
  and \<open>checkUpdate\<close> answers an error of \<open>deltaVersion\<close> with \<open>ERROR\<close>, the version
  \<open>error\<close> and the error wrapped.
\<close>

theorem deltaVersion_error_iff:
  "((\<exists>err. deltaVersion rt onlineVersion clientVersion = Inl err)
      \<longleftrightarrow> \<not> (list_all is_int_literal (pieces onlineVersion)
               \<and> list_all is_int_literal (pieces clientVersion)))
   \<and> (\<exists>err. deltaVersion rt ''v1.x.0'' ''v1.0.0'' = Inl err)
   \<and> (\<exists>err. deltaVersion rt ''v1.0.0'' ''vA.B'' = Inl err)
   \<and> (NewRequest net (request_url clientProtV clientVersion) = None
        \<and> ClientDo net (request_url clientProtV clientVersion) (user_agent rt clientVersion)
             = Inr (body, None)
        \<and> Contains body respHeader
        \<and> deltaVersion rt (ReplaceAll body respHeader '''') clientVersion = Inl err \<longrightarrow>
      fst (checkUpdate rt net clientProtV clientVersion respHeader)
        = (ERROR, ''error'', Some (Errorf ''checkUpdate: '' (Some err))))"
proof (intro conjI impI)
  show "(\<exists>err. deltaVersion rt onlineVersion clientVersion = Inl err)
      \<longleftrightarrow> \<not> (list_all is_int_literal (pieces onlineVersion)
               \<and> list_all is_int_literal (pieces clientVersion))"
    unfolding deltaVersion_error_cases digitize_ok_iff ..
next
  show "\<exists>err. deltaVersion rt ''v1.x.0'' ''v1.0.0'' = Inl err"
    by (simp add: version_eval)
next
  show "\<exists>err. deltaVersion rt ''v1.0.0'' ''vA.B'' = Inl err"
    by (simp add: version_eval)
next
  assume "NewRequest net (request_url clientProtV clientVersion) = None
        \<and> ClientDo net (request_url clientProtV clientVersion) (user_agent rt clientVersion)
             = Inr (body, None)
        \<and> Contains body respHeader
        \<and> deltaVersion rt (ReplaceAll body respHeader '''') clientVersion = Inl err"
  then show "fst (checkUpdate rt net clientProtV clientVersion respHeader)
        = (ERROR, ''error'', Some (Errorf ''checkUpdate: '' (Some err)))"
    by (simp add: checkUpdate_answered)
qed

text \<open>The body \<open>latest version: v1.x.0\<close>, and the components of \<open>v1.x.0\<close>.\<close>

theorem deltaVersion_error_iff_witness:
  "pieces ''v1.x.0'' = [''1'', ''x'', ''0''] \<and> \<not> is_int_literal ''x''
   \<and> deltaVersion linux_amd64 ''v1.x.0'' ''v1.0.0''
        = Inl (Errorf ''compareVersion: '' (Some (NumError ''Atoi'' ''x'' ErrSyntax)))
   \<and> fst (checkUpdate linux_amd64 (answering ''latest version: v1.x.0'') ''1'' ''v1.0.0''
          ''latest version: '')
     = (ERROR, ''error'',
        Some (Errorf ''checkUpdate: ''
          (Some (Errorf ''compareVersion: '' (Some (NumError ''Atoi'' ''x'' ErrSyntax))))))"
proof -
  have p: "pieces ''v1.x.0'' = [''1'', ''x'', ''0'']"
    by (simp add: pieces_def strings_eval)
  have x: "\<not> is_int_literal ''x''"
    by (simp add: is_int_literal_def is_numeral_def is_digit_def)
  have d: "deltaVersion linux_amd64 ''v1.x.0'' ''v1.0.0''
        = Inl (Errorf ''compareVersion: '' (Some (NumError ''Atoi'' ''x'' ErrSyntax)))"
    by (simp add: version_eval)
  have "fst (checkUpdate linux_amd64 (answering ''latest version: v1.x.0'') ''1'' ''v1.0.0''
          ''latest version: '')
     = (ERROR, ''error'',
        Some (Errorf ''checkUpdate: ''
          (Some (Errorf ''compareVersion: '' (Some (NumError ''Atoi'' ''x'' ErrSyntax))))))"
    using deltaVersion_error_iff [where net = "answering ''latest version: v1.x.0''"
        and body = "''latest version: v1.x.0''" and rt = linux_amd64
        and clientProtV = "''1''" and clientVersion = "''v1.0.0''"
        and respHeader = "''latest version: ''"
        and err = "Errorf ''compareVersion: '' (Some (NumError ''Atoi'' ''x'' ErrSyntax))"]
    by (simp add: answering_def version_eval)
  with p x d show ?thesis by blast
qed

text \<open>
  The component \<open>-2\<close> is not a non-negative integer, and \<open>deltaVersion\<close> accepts it:
  \<open>Atoi\<close> reads a sign.
\<close>

theorem deltaVersion_error_iff_counterexample:
  "pieces ''v1.-2.0'' = [''1'', ''-2'', ''0'']
   \<and> \<not> is_numeral ''-2''
   \<and> Atoi ''-2'' = Inr (- 2)
   \<and> deltaVersion linux_amd64 ''v1.-2.0'' ''v1.0.0'' = Inr (- 2000000)"
  by (simp add: pieces_def version_eval is_numeral_def)

text \<open>
  Claim C5. When the request is accepted and answered, the body contains the header and
  \<open>deltaVersion\<close> of the online and the local version returns \<open>delta\<close> with no error,
  \<open>checkUpdate\<close> returns \<open>UPDATEAVAILABLE\<close> for a positive \<open>delta\<close>, \<open>UNOFFICIALVERSION\<close>
  for a negative one and \<open>UPDATED\<close> for 0, each with the online version and a nil error.
\<close>

theorem checkUpdate_classification:
  assumes "NewRequest net (request_url clientProtV clientVersion) = None"
    and "ClientDo net (request_url clientProtV clientVersion) (user_agent rt clientVersion)
           = Inr (body, None)"
    and "Contains body respHeader"
    and "deltaVersion rt (ReplaceAll body respHeader '''') clientVersion = Inr delta"
  shows "(0 < sint delta \<longrightarrow>
            fst (checkUpdate rt net clientProtV clientVersion respHeader)
              = (UPDATEAVAILABLE, ReplaceAll body respHeader '''', None))
     \<and> (sint delta < 0 \<longrightarrow>
            fst (checkUpdate rt net clientProtV clientVersion respHeader)
              = (UNOFFICIALVERSION, ReplaceAll body respHeader '''', None))
     \<and> (delta = 0 \<longrightarrow>
            fst (checkUpdate rt net clientProtV clientVersion respHeader)
              = (UPDATED, ReplaceAll body respHeader '''', None))"
  by (simp add: checkUpdate_answered [OF assms(1,2,3)] assms(4) classify_def)

text \<open>The local version \<open>v1.0.0\<close> against the online versions 2.0.0, 0.9.0 and 1.0.0.\<close>

theorem checkUpdate_classification_witness:
  "deltaVersion linux_amd64 ''v2.0.0'' ''v1.0.0'' = Inr 1000000000
   \<and> fst (checkUpdate linux_amd64 (answering ''latest version: v2.0.0'') ''1'' ''v1.0.0''
            ''latest version: '')
       = (UPDATEAVAILABLE, ''v2.0.0'', None)
   \<and> deltaVersion linux_amd64 ''v0.9.0'' ''v1.0.0'' = Inr (- 991000000)
   \<and> fst (checkUpdate linux_amd64 (answering ''latest version: v0.9.0'') ''1'' ''v1.0.0''
            ''latest version: '')
       = (UNOFFICIALVERSION, ''v0.9.0'', None)
   \<and> deltaVersion linux_amd64 ''v1.0.0'' ''v1.0.0'' = Inr 0
   \<and> fst (checkUpdate linux_amd64 (answering ''latest version: v1.0.0'') ''1'' ''v1.0.0''
            ''latest version: '')
       = (UPDATED, ''v1.0.0'', None)"
proof -
  have n: "NewRequest (answering body) (request_url ''1'' ''v1.0.0'') = None"
    and c: "ClientDo (answering body) (request_url ''1'' ''v1.0.0'')
              (user_agent linux_amd64 ''v1.0.0'') = Inr (body, None)" for body
    by (simp_all add: answering_def)
  have h: "Contains ''latest version: v2.0.0'' ''latest version: ''"
    "Contains ''latest version: v0.9.0'' ''latest version: ''"
    "Contains ''latest version: v1.0.0'' ''latest version: ''"
    by (simp_all add: HasPrefix_def)
  have r: "ReplaceAll ''latest version: v2.0.0'' ''latest version: '' '''' = ''v2.0.0''"
    "ReplaceAll ''latest version: v0.9.0'' ''latest version: '' '''' = ''v0.9.0''"
    "ReplaceAll ''latest version: v1.0.0'' ''latest version: '' '''' = ''v1.0.0''"
    by (simp_all add: strings_eval)
  have d: "deltaVersion linux_amd64 ''v2.0.0'' ''v1.0.0'' = Inr 1000000000"
    "deltaVersion linux_amd64 ''v0.9.0'' ''v1.0.0'' = Inr (- 991000000)"
    "deltaVersion linux_amd64 ''v1.0.0'' ''v1.0.0'' = Inr 0"
    by (simp_all add: version_eval)
  have "fst (checkUpdate linux_amd64 (answering ''latest version: v2.0.0'') ''1'' ''v1.0.0''
            ''latest version: '') = (UPDATEAVAILABLE, ''v2.0.0'', None)"
    using checkUpdate_classification [OF n c h(1), of 1000000000] d(1) by (simp add: r)
  moreover
  have "fst (checkUpdate linux_amd64 (answering ''latest version: v0.9.0'') ''1'' ''v1.0.0''
            ''latest version: '') = (UNOFFICIALVERSION, ''v0.9.0'', None)"
    using checkUpdate_classification [OF n c h(2), of "- 991000000"] d(2) by (simp add: r)
  moreover
  have "fst (checkUpdate linux_amd64 (answering ''latest version: v1.0.0'') ''1'' ''v1.0.0''
            ''latest version: '') = (UPDATED, ''v1.0.0'', None)"
    using checkUpdate_classification [OF n c h(3), of 0] d(3) by (simp add: r)
  ultimately show ?thesis using d by blast
qed

section \<open>The shutdown by the status of the server\<close>

text \<open>
  Claim C6. Of the run that a signal starts, the stop operation is the first call; then,
  after the sleep of one second: with the status OFFLINE the listener logs, prints the
  exit notice and exits, and never calls \<open>Wg.Wait()\<close>; with STOPPING it logs and calls
  \<open>Wg.Wait()\<close>, and exits once the wait has returned, not before; with any other status
  it logs the warning, prints the exit notice and exits, and never calls \<open>Wg.Wait()\<close>.
\<close>

theorem shutdown_by_status:
  "(\<exists>rest. on_signal env = StopMS False # rest)
   \<and> (Status env = STATUS_OFFLINE \<longrightarrow>
        WgWait \<notin> set (on_signal env)
        \<and> (\<exists>before. on_signal env = before @
              [TimeSleep Second,
               LoggerLogln [Str ''InterruptListener: minecraft server terminal already exited (server is offline)''],
               FmtPrint ''exiting msh'', OsExit 0]))
   \<and> (Status env = STATUS_STOPPING \<longrightarrow>
        (\<exists>before. on_signal env = before @
              [TimeSleep Second,
               LoggerLogln [Str ''InterruptListener: waiting for minecraft server terminal to exit (server is stopping)''],
               WgWait]
              @ (if Wait_returns env then [FmtPrint ''exiting msh'', OsExit 0] else [])
            \<and> exit_codes before = []))
   \<and> (Status env = STATUS_OTHER other \<longrightarrow>
        WgWait \<notin> set (on_signal env)
        \<and> (\<exists>before. on_signal env = before @
              [TimeSleep Second,
               LoggerLogln [Str ''InterruptListener: stop command does not seem to be stopping server during forceful shutdown''],
               FmtPrint ''exiting msh'', OsExit 0]))"
proof (intro conjI impI)
  show "\<exists>rest. on_signal env = StopMS False # rest"
    by (simp add: on_signal_def)
next
  assume "Status env = STATUS_OFFLINE"
  then show "WgWait \<notin> set (on_signal env)"
    by (simp add: on_signal_def split: option.splits)
next
  assume "Status env = STATUS_OFFLINE"
  then show "\<exists>before. on_signal env = before @
              [TimeSleep Second,
               LoggerLogln [Str ''InterruptListener: minecraft server terminal already exited (server is offline)''],
               FmtPrint ''exiting msh'', OsExit 0]"
    by (simp add: on_signal_def)
next
  assume "Status env = STATUS_STOPPING"
  then have "on_signal env
      = ([StopMS False]
          @ (case StopMS_err env of
               Some err \<Rightarrow> [LoggerLogln [Str ''InterruptListener:'', ErrMsg err]]
             | None \<Rightarrow> []))
        @ [TimeSleep Second,
           LoggerLogln [Str ''InterruptListener: waiting for minecraft server terminal to exit (server is stopping)''],
           WgWait]
        @ (if Wait_returns env then [FmtPrint ''exiting msh'', OsExit 0] else [])"
    by (simp add: on_signal_def)
  moreover have "exit_codes ([StopMS False]
          @ (case StopMS_err env of
               Some err \<Rightarrow> [LoggerLogln [Str ''InterruptListener:'', ErrMsg err]]
             | None \<Rightarrow> [])) = []"
    by (simp split: option.splits)
  ultimately show "\<exists>before. on_signal env = before @
              [TimeSleep Second,
               LoggerLogln [Str ''InterruptListener: waiting for minecraft server terminal to exit (server is stopping)''],
               WgWait]
              @ (if Wait_returns env then [FmtPrint ''exiting msh'', OsExit 0] else [])
            \<and> exit_codes before = []"
    by blast
next
  assume "Status env = STATUS_OTHER other"
  then show "WgWait \<notin> set (on_signal env)"
    by (simp add: on_signal_def split: option.splits)
next
  assume "Status env = STATUS_OTHER other"
  then show "\<exists>before. on_signal env = before @
              [TimeSleep Second,
               LoggerLogln [Str ''InterruptListener: stop command does not seem to be stopping server during forceful shutdown''],
               FmtPrint ''exiting msh'', OsExit 0]"
    by (simp add: on_signal_def)
qed

text \<open>A server that is offline, one that is stopping, and one in another state.\<close>

theorem shutdown_by_status_witness:
  "on_signal \<lparr>StopMS_err = None, Status = STATUS_OFFLINE, Wait_returns = True\<rparr>
     = [StopMS False, TimeSleep Second,
        LoggerLogln [Str ''InterruptListener: minecraft server terminal already exited (server is offline)''],
        FmtPrint ''exiting msh'', OsExit 0]
   \<and> WgWait \<notin> set (on_signal \<lparr>StopMS_err = None, Status = STATUS_OFFLINE, Wait_returns = True\<rparr>)
   \<and> on_signal \<lparr>StopMS_err = None, Status = STATUS_STOPPING, Wait_returns = True\<rparr>
     = [StopMS False, TimeSleep Second,
        LoggerLogln [Str ''InterruptListener: waiting for minecraft server terminal to exit (server is stopping)''],
        WgWait, FmtPrint ''exiting msh'', OsExit 0]
   \<and> WgWait \<notin> set (on_signal \<lparr>StopMS_err = None, Status = STATUS_OTHER 0, Wait_returns = True\<rparr>)"
proof -
  have "WgWait \<notin> set (on_signal \<lparr>StopMS_err = None, Status = STATUS_OFFLINE, Wait_returns = True\<rparr>)"
    using shutdown_by_status
      [of "\<lparr>StopMS_err = None, Status = STATUS_OFFLINE, Wait_returns = True\<rparr>"]
    by simp
  moreover
  have "WgWait \<notin> set (on_signal \<lparr>StopMS_err = None, Status = STATUS_OTHER 0, Wait_returns = True\<rparr>)"
    using shutdown_by_status
      [of "\<lparr>StopMS_err = None, Status = STATUS_OTHER 0, Wait_returns = True\<rparr>" 0]
    by simp
  moreover
  have "on_signal \<lparr>StopMS_err = None, Status = STATUS_STOPPING, Wait_returns = True\<rparr>
     = [StopMS False, TimeSleep Second,
        LoggerLogln [Str ''InterruptListener: waiting for minecraft server terminal to exit (server is stopping)''],
        WgWait, FmtPrint ''exiting msh'', OsExit 0]"
    using shutdown_by_status
      [of "\<lparr>StopMS_err = None, Status = STATUS_STOPPING, Wait_returns = True\<rparr>"]
    by (simp add: on_signal_def)
  moreover
  have "on_signal \<lparr>StopMS_err = None, Status = STATUS_OFFLINE, Wait_returns = True\<rparr>
     = [StopMS False, TimeSleep Second,
        LoggerLogln [Str ''InterruptListener: minecraft server terminal already exited (server is offline)''],
        FmtPrint ''exiting msh'', OsExit 0]"
    by (simp add: on_signal_def)
  ultimately show ?thesis by blast
qed


section \<open>The broadcaster on the clock\<close>

text \<open>
  Claim C7. A broadcaster started at \<open>T0\<close> with the interval of 20 minutes and the
  duration of 40 minutes, whose first two passes lose less than 20 minutes beyond the
  sleeps, makes two passes and returns: it reads the clock at \<open>T0\<close>, attempts a send at
  \<open>T0\<close> plus the first lag, sleeps 20 minutes, attempts a send 20 minutes and the second
  lag later, sleeps 20 minutes, reads a time not before \<open>T0\<close> plus 40 minutes and ends,
  with no other call. An attempt while the channel is not active is no call at all; an
  attempt while it is active is the command \<open>say\<close> with the message.
\<close>

theorem notifyGameChat_two_sends:
  assumes "int (lag (env 0)) + int (lag (env 1)) < 20 * Minute"
  shows "notifyGameChat env T0 (20 * Minute) (40 * Minute) notificationString
     = Some ([TimeNow T0, TimeNow (T0 + int (lag (env 0)))]
             @ say (env 0) notificationString
             @ [TimeSleep (20 * Minute),
                TimeNow (T0 + int (lag (env 0)) + 20 * Minute + int (lag (env 1)))]
             @ say (env 1) notificationString
             @ [TimeSleep (20 * Minute),
                TimeNow (T0 + int (lag (env 0)) + 20 * Minute + int (lag (env 1))
                           + 20 * Minute + int (lag (env 2)))])
     \<and> T0 + 40 * Minute
         \<le> T0 + int (lag (env 0)) + 20 * Minute + int (lag (env 1)) + 20 * Minute
             + int (lag (env 2))
     \<and> (\<not> IsActive tk \<longrightarrow> say tk notificationString = [])
     \<and> (IsActive tk \<longrightarrow>
          (\<exists>logged. say tk notificationString
             = Execute (''say '' @ notificationString) ''notifyGameChat'' # logged
             \<and> list_all (\<lambda>e. \<exists>args. e = LoggerLogln args) logged))"
proof -
  have m: "(0 :: int) < Minute" by (simp add: Minute_def Second_def)
  have max: "max 0 (20 * Minute) = 20 * Minute" using m by simp
  let ?t0 = "T0 + int (lag (env 0))"
  let ?t1 = "?t0 + 20 * Minute + int (lag (env 1))"
  let ?t2 = "?t1 + 20 * Minute + int (lag (env 2))"
  have c0: "?t0 < T0 + 40 * Minute" using assms m by linarith
  have c1: "?t1 < T0 + 40 * Minute" using assms m by linarith
  have c2: "\<not> ?t2 < T0 + 40 * Minute" by linarith
  have e1: "env (Suc 0) = env 1" by simp
  have e2: "env (Suc (Suc 0)) = env 2" by (simp add: numeral_2_eq_2)
  have step0: "notify_loop env (20 * Minute) (T0 + 40 * Minute) notificationString 0 T0
                 [TimeNow T0]
      = notify_loop env (20 * Minute) (T0 + 40 * Minute) notificationString (Suc 0)
          (?t0 + 20 * Minute)
          ([TimeNow T0] @ [TimeNow ?t0] @ say (env 0) notificationString
             @ [TimeSleep (20 * Minute)])"
    by (subst notify_loop.simps) (simp only: c0 if_True max)
  have step1: "notify_loop env (20 * Minute) (T0 + 40 * Minute) notificationString (Suc 0)
          (?t0 + 20 * Minute)
          ([TimeNow T0] @ [TimeNow ?t0] @ say (env 0) notificationString
             @ [TimeSleep (20 * Minute)])
      = notify_loop env (20 * Minute) (T0 + 40 * Minute) notificationString (Suc (Suc 0))
          (?t1 + 20 * Minute)
          (([TimeNow T0] @ [TimeNow ?t0] @ say (env 0) notificationString
             @ [TimeSleep (20 * Minute)])
            @ [TimeNow ?t1] @ say (env 1) notificationString @ [TimeSleep (20 * Minute)])"
    by (subst notify_loop.simps) (simp only: e1 c1 if_True max)
  have step2: "notify_loop env (20 * Minute) (T0 + 40 * Minute) notificationString (Suc (Suc 0))
          (?t1 + 20 * Minute)
          (([TimeNow T0] @ [TimeNow ?t0] @ say (env 0) notificationString
             @ [TimeSleep (20 * Minute)])
            @ [TimeNow ?t1] @ say (env 1) notificationString @ [TimeSleep (20 * Minute)])
      = Some ((([TimeNow T0] @ [TimeNow ?t0] @ say (env 0) notificationString
             @ [TimeSleep (20 * Minute)])
            @ [TimeNow ?t1] @ say (env 1) notificationString @ [TimeSleep (20 * Minute)])
            @ [TimeNow ?t2])"
    by (subst notify_loop.simps) (simp only: e2 c2 if_False)
  have run: "notifyGameChat env T0 (20 * Minute) (40 * Minute) notificationString
     = Some ([TimeNow T0, TimeNow ?t0]
             @ say (env 0) notificationString
             @ [TimeSleep (20 * Minute), TimeNow ?t1]
             @ say (env 1) notificationString
             @ [TimeSleep (20 * Minute), TimeNow ?t2])"
    unfolding notifyGameChat_def step0 step1 step2 by simp
  have late: "T0 + 40 * Minute \<le> ?t2" by linarith
  have idle: "\<not> IsActive tk \<longrightarrow> say tk notificationString = []"
    by (simp add: say_def)
  have busy: "IsActive tk \<longrightarrow>
          (\<exists>logged. say tk notificationString
             = Execute (''say '' @ notificationString) ''notifyGameChat'' # logged
             \<and> list_all (\<lambda>e. \<exists>args. e = LoggerLogln args) logged)"
    by (simp add: say_def split: option.splits)
  from run late idle busy show ?thesis by blast
qed

text \<open>
  A channel that is active at the first attempt only, on a clock that loses no time.
\<close>

theorem notifyGameChat_two_sends_witness:
  "int (lag ((\<lambda>i. \<lparr>IsActive = (i = 0), ExecuteErr = None, lag = 0\<rparr>) 0))
     + int (lag ((\<lambda>i. \<lparr>IsActive = (i = 0), ExecuteErr = None, lag = 0\<rparr>) 1)) < 20 * Minute
   \<and> notifyGameChat (\<lambda>i. \<lparr>IsActive = (i = 0), ExecuteErr = None, lag = 0\<rparr>) 0
        (20 * Minute) (40 * Minute) ''update''
     = Some [TimeNow 0, TimeNow 0, Execute ''say update'' ''notifyGameChat'',
             TimeSleep (20 * Minute), TimeNow (20 * Minute),
             TimeSleep (20 * Minute), TimeNow (40 * Minute)]"
proof -
  have h: "int (lag ((\<lambda>i. \<lparr>IsActive = (i = 0), ExecuteErr = None, lag = 0\<rparr>) 0))
     + int (lag ((\<lambda>i. \<lparr>IsActive = (i = 0), ExecuteErr = None, lag = 0\<rparr>) 1)) < 20 * Minute"
    by (simp add: Minute_def Second_def)
  from notifyGameChat_two_sends [OF h, of 0 "''update''"] h
  show ?thesis by (simp add: say_def)
qed

section \<open>The gate of the notifications\<close>

lemma filter_visible_notify_off:
  "filter user_visible (UpdateManager_pass rt net False clientVersion) = []"
  by (simp add: UpdateManager_pass_def checkUpdate_def Let_def
      split: prod.splits option.splits sum.splits)

lemma UpdateManager_pass_unfold:
  "UpdateManager_pass rt net NotifyUpdate clientVersion =
     [LoggerLogln [Str ''checking version...'']]
     @ snd (checkUpdate rt net ''1'' clientVersion ''latest version: '')
     @ (case snd (snd (fst (checkUpdate rt net ''1'' clientVersion ''latest version: ''))) of
          Some e \<Rightarrow> [LoggerLogln [Str ''UpdateManager:'', ErrMsg e]]
        | None \<Rightarrow> [])
     @ (if NotifyUpdate
        then notify_events (fst (fst (checkUpdate rt net ''1'' clientVersion ''latest version: '')))
               clientVersion
               (fst (snd (fst (checkUpdate rt net ''1'' clientVersion ''latest version: ''))))
        else [])
     @ [SendCheckedUpdateC, TimeSleep (4 * Hour)]"
  by (simp add: UpdateManager_pass_def split: prod.splits)

lemma checkUpdate_events_hidden:
  "filter user_visible (snd (checkUpdate rt net clientProtV clientVersion respHeader)) = []"
  by (simp add: checkUpdate_def Let_def split: option.splits sum.splits prod.splits)

lemma filter_empty_hidden: "filter user_visible xs = [] \<Longrightarrow> filter (\<lambda>e. \<not> user_visible e) xs = xs"
  by (induction xs) (auto split: if_splits)

lemma notify_events_visible:
  "filter (\<lambda>e. \<not> user_visible e) (notify_events status clientVersion onlineVersion) = []"
  by (simp add: notify_events_def Let_def)

lemma notify_events_ERROR: "notify_events ERROR clientVersion onlineVersion = []"
  by (simp add: notify_events_def ERROR_def UPDATED_def UPDATEAVAILABLE_def
      UNOFFICIALVERSION_def)

text \<open>
  Claim C8. A pass of the poller with \<open>NotifyUpdate\<close> false prints nothing and starts no
  broadcaster; it makes the calls of the pass with \<open>NotifyUpdate\<close> true that are not
  such output, in the same order, the request of \<open>checkUpdate\<close> after the first log
  among them. A pass whose status is \<open>ERROR\<close> prints nothing and starts no broadcaster
  with \<open>NotifyUpdate\<close> true either. The calls of the logger are not counted as output.
\<close>

theorem notification_gate:
  "filter user_visible (UpdateManager_pass rt net False clientVersion) = []
   \<and> UpdateManager_pass rt net False clientVersion
       = filter (\<lambda>e. \<not> user_visible e) (UpdateManager_pass rt net True clientVersion)
   \<and> (\<exists>rest. UpdateManager_pass rt net False clientVersion
         = LoggerLogln [Str ''checking version...'']
           # snd (checkUpdate rt net ''1'' clientVersion ''latest version: '') @ rest)
   \<and> (fst (fst (checkUpdate rt net ''1'' clientVersion ''latest version: '')) = ERROR \<longrightarrow>
        filter user_visible (UpdateManager_pass rt net True clientVersion) = [])"
proof (intro conjI impI)
  show "filter user_visible (UpdateManager_pass rt net False clientVersion) = []"
    by (rule filter_visible_notify_off)
next
  show "UpdateManager_pass rt net False clientVersion
       = filter (\<lambda>e. \<not> user_visible e) (UpdateManager_pass rt net True clientVersion)"
    unfolding UpdateManager_pass_unfold
    by (simp add: notify_events_visible filter_empty_hidden [OF checkUpdate_events_hidden]
        split: option.splits)
next
  show "\<exists>rest. UpdateManager_pass rt net False clientVersion
         = LoggerLogln [Str ''checking version...'']
           # snd (checkUpdate rt net ''1'' clientVersion ''latest version: '') @ rest"
    unfolding UpdateManager_pass_unfold by simp
next
  assume "fst (fst (checkUpdate rt net ''1'' clientVersion ''latest version: '')) = ERROR"
  then show "filter user_visible (UpdateManager_pass rt net True clientVersion) = []"
    unfolding UpdateManager_pass_unfold
    by (simp add: notify_events_ERROR checkUpdate_events_hidden split: option.splits)
qed

text \<open>A request that is not delivered, with \<open>NotifyUpdate\<close> true.\<close>

theorem notification_gate_witness:
  "fst (fst (checkUpdate linux_amd64 (unreachable (IOError ''timeout'')) ''1'' ''v1.0.0''
               ''latest version: '')) = ERROR
   \<and> filter user_visible
         (UpdateManager_pass linux_amd64 (unreachable (IOError ''timeout'')) True ''v1.0.0'') = []
   \<and> UpdateManager_pass linux_amd64 (unreachable (IOError ''timeout'')) True ''v1.0.0''
       = [LoggerLogln [Str ''checking version...''],
          HttpGet (request_url ''1'' ''v1.0.0'') (user_agent linux_amd64 ''v1.0.0''),
          LoggerLogln [Str ''UpdateManager:'',
            ErrMsg (Errorf ''checkUpdate: '' (Some (IOError ''timeout'')))],
          SendCheckedUpdateC, TimeSleep (4 * Hour)]"
proof -
  have e: "fst (fst (checkUpdate linux_amd64 (unreachable (IOError ''timeout'')) ''1'' ''v1.0.0''
               ''latest version: '')) = ERROR"
    by (simp add: checkUpdate_def unreachable_def)
  have "filter user_visible
         (UpdateManager_pass linux_amd64 (unreachable (IOError ''timeout'')) True ''v1.0.0'') = []"
    using notification_gate [of linux_amd64 "unreachable (IOError ''timeout'')" "''v1.0.0''"] e
    by blast
  moreover
  have "UpdateManager_pass linux_amd64 (unreachable (IOError ''timeout'')) True ''v1.0.0''
       = [LoggerLogln [Str ''checking version...''],
          HttpGet (request_url ''1'' ''v1.0.0'') (user_agent linux_amd64 ''v1.0.0''),
          LoggerLogln [Str ''UpdateManager:'',
            ErrMsg (Errorf ''checkUpdate: '' (Some (IOError ''timeout'')))],
          SendCheckedUpdateC, TimeSleep (4 * Hour)]"
    by (simp add: UpdateManager_pass_def checkUpdate_def unreachable_def notify_events_ERROR)
  ultimately show ?thesis using e by blast
qed


section \<open>The exit status\<close>

lemma exit_codes_append: "exit_codes (xs @ ys) = exit_codes xs @ exit_codes ys"
  by (induction xs rule: exit_codes.induct) simp_all

lemma exit_codes_log_trace: "exit_codes (log_trace errMsh) = []"
  by (simp add: log_trace_def split: option.splits)

lemma exit_codes_on_signal: "set (exit_codes (on_signal env)) \<subseteq> {0}"
  by (simp add: on_signal_def exit_codes_append split: option.splits server_status.splits)

lemma exit_codes_msh_command: "set (exit_codes (fst (msh_command env cmd))) \<subseteq> {0}"
  by (simp add: msh_command_def exit_codes_append exit_codes_log_trace)

lemma exit_codes_mine_command: "exit_codes (fst (mine_command env args)) = []"
  by (simp add: mine_command_def exit_codes_log_trace)

lemma exit_codes_GetInput_pass: "set (exit_codes (fst (GetInput_pass env))) \<subseteq> {0}"
proof (cases "Read_line env")
  case (Pair read err)
  show ?thesis
  proof (cases err)
    case (Some e)
    then show ?thesis using Pair by (simp add: GetInput_pass_def)
  next
    case None
    then show ?thesis
      using Pair exit_codes_msh_command exit_codes_mine_command
      by (simp add: GetInput_pass_def Let_def split: list.splits)
  qed
qed

lemma exit_codes_GetInput: "set (exit_codes (GetInput envs)) \<subseteq> {0}"
proof (induction envs)
  case Nil
  show ?case by simp
next
  case (Cons env later)
  then show ?case
    using exit_codes_GetInput_pass [of env] by (simp add: exit_codes_append)
qed

lemma msh_exit_line:
  assumes "Read_line env = (''msh exit'' @ [CHR 0x0A], None)"
  shows "exit_codes (fst (GetInput_pass env)) = [0]" and "\<not> snd (GetInput_pass env)"
  using assms
  by (simp_all add: GetInput_pass_def single_spaces.simps strings_eval msh_command_def
      exit_codes_append exit_codes_log_trace)

text \<open>
  Claim C9. Every exit of the process, in a run of the listener for signals and in a run
  of the reader of commands, has the status 0; the listener exits once a signal has come,
  unless it is left waiting for a server that is stopping, and the command \<open>msh exit\<close>
  exits.
\<close>

theorem exit_status_zero:
  "set (exit_codes (InterruptListener signals)) \<subseteq> {0}
   \<and> set (exit_codes (GetInput envs)) \<subseteq> {0}
   \<and> (Status senv \<noteq> STATUS_STOPPING \<or> Wait_returns senv \<longrightarrow>
        exit_codes (InterruptListener ((sig, senv) # later)) = [0])
   \<and> (Read_line ienv = (''msh exit'' @ [CHR 0x0A], None) \<longrightarrow>
        exit_codes (GetInput (ienv # ilater)) = [0])"
proof (intro conjI impI)
  show "set (exit_codes (InterruptListener signals)) \<subseteq> {0}"
    by (cases signals rule: InterruptListener.cases) (simp_all add: exit_codes_on_signal)
next
  show "set (exit_codes (GetInput envs)) \<subseteq> {0}"
    by (rule exit_codes_GetInput)
next
  assume "Status senv \<noteq> STATUS_STOPPING \<or> Wait_returns senv"
  then show "exit_codes (InterruptListener ((sig, senv) # later)) = [0]"
    by (auto simp: on_signal_def exit_codes_append split: option.splits server_status.splits)
next
  assume "Read_line ienv = (''msh exit'' @ [CHR 0x0A], None)"
  then show "exit_codes (GetInput (ienv # ilater)) = [0]"
    using msh_exit_line [of ienv] by simp
qed

text \<open>A signal to an offline server, and the line \<open>msh exit\<close> followed by another.\<close>

theorem exit_status_zero_witness:
  "exit_codes (InterruptListener
      [(SIGTERM, \<lparr>StopMS_err = None, Status = STATUS_OFFLINE, Wait_returns = False\<rparr>),
       (SIGINT, \<lparr>StopMS_err = None, Status = STATUS_OFFLINE, Wait_returns = False\<rparr>)]) = [0]
   \<and> exit_codes (GetInput
      [\<lparr>Read_line = (''msh exit'' @ [CHR 0x0A], None), StartMS_ret = None, StopMS_ret = None,
         Execute_ret = None, Server_online = False\<rparr>,
       \<lparr>Read_line = (''msh start'' @ [CHR 0x0A], None), StartMS_ret = None, StopMS_ret = None,
         Execute_ret = None, Server_online = False\<rparr>]) = [0]"
  using exit_status_zero
    [where senv = "\<lparr>StopMS_err = None, Status = STATUS_OFFLINE, Wait_returns = False\<rparr>"
       and sig = SIGTERM
       and later = "[(SIGINT, \<lparr>StopMS_err = None, Status = STATUS_OFFLINE, Wait_returns = False\<rparr>)]"
       and ienv = "\<lparr>Read_line = (''msh exit'' @ [CHR 0x0A], None), StartMS_ret = None,
         StopMS_ret = None, Execute_ret = None, Server_online = False\<rparr>"
       and ilater = "[\<lparr>Read_line = (''msh start'' @ [CHR 0x0A], None), StartMS_ret = None,
         StopMS_ret = None, Execute_ret = None, Server_online = False\<rparr>]"]
  by simp

end
